theory Spec2Isabelle
  imports Complex_Main
begin

section \<open>Data model (prisma schema, migration 20250710155156_init)\<close>

text \<open>
  Amounts are integer minor units (paisa), as the source's comments say
  (``stored in paisa''); the source computes on them with JavaScript numbers,
  which are exact on integers of the magnitude a DECIMAL(19,4) column holds.
  Row ids, which Prisma generates, are drawn from a counter kept in the store.
\<close>

datatype UserRole = USER | INFLUENCER

datatype AccountType =
  USER_WALLET | INFLUENCER_WALLET | REVENUE | ESCROW | PAYMENT_GATEWAY_LIABILITY

datatype TransactionType =
  CALL_PAYMENT | CHAT_PAYMENT | TOP_UP | REFUND | WITHDRAWAL | HOLD_FUNDS | SETTLE_FUNDS

datatype TransactionStatus = PENDING | HELD | COMPLETED | FAILED | CANCELLED

datatype EntryDirection = DEBIT | CREDIT

datatype CallType = VOICE | VIDEO

record user =
  user_id :: nat
  email :: string
  username :: string
  role :: UserRole

record account =
  acc_id :: nat
  acc_userId :: "nat option"
  accountType :: AccountType
  balance :: int

record transaction =
  tx_id :: nat
  idempotencyKey :: "string option"
  tx_type :: TransactionType
  tx_status :: TransactionStatus
  referenceId :: "string option"
  tx_userId :: "nat option"
  tx_amount :: int

record entry =
  transactionId :: nat
  accountId :: nat
  amount :: int
  direction :: EntryDirection

record db =
  users :: "user list"
  accounts :: "account list"
  transactions :: "transaction list"
  entries :: "entry list"
  nextId :: nat

text \<open>Every exception the modelled services throw, by its message.\<close>

datatype error =
  InsufficientBalanceForMessage
  | ReceiverAccountNotFound
  | InsufficientBalanceForCall
  | UserAccountNotFound
  | RequiredAccountsNotFound
  | InsufficientBalance
  | MinimumTopUpAmount
  | PaymentVerificationFailed
  | MinimumWithdrawalAmount
  | MaximumWithdrawalAmount
  | InsufficientBalanceForWithdrawal
  | UserWalletNotFound
  | UserAlreadyExists
  | UniqueConstraintViolation

text \<open>
  The ConfigService: each key is absent or holds a number. The source reads a
  key as \<open>get(key) || default\<close>, so an absent key and the value 0 both give the
  default.
\<close>

record config =
  PRICE_PER_MESSAGE :: "int option"
  PRICE_PER_MINUTE_VOICE :: "int option"
  PRICE_PER_MINUTE_VIDEO :: "int option"
  MIN_TOPUP_AMOUNT :: "int option"
  MIN_WITHDRAWAL_AMOUNT :: "int option"
  MAX_WITHDRAWAL_AMOUNT :: "int option"
  GOOGLE_PAY_ENVIRONMENT :: "string option"

definition orDefault :: "int option \<Rightarrow> int \<Rightarrow> int" where
  "orDefault v dflt = (case v of None \<Rightarrow> dflt | Some n \<Rightarrow> (if n = 0 then dflt else n))"

section \<open>Billing (billing.service.ts, and the inline computations of wallet.service.ts)\<close>

text \<open>\<open>Math.floor(amount * 0.9)\<close> and \<open>amount - receiverAmount\<close>.\<close>

definition receiverAmount :: "int \<Rightarrow> int" where
  "receiverAmount amt = \<lfloor>rat_of_int amt * (9 / 10)\<rfloor>"

definition revenueAmount :: "int \<Rightarrow> int" where
  "revenueAmount amt = amt - receiverAmount amt"

text \<open>\<open>Math.ceil(durationInSeconds / 60)\<close>.\<close>

definition durationInMinutes :: "int \<Rightarrow> int" where
  "durationInMinutes durationInSeconds = \<lceil>rat_of_int durationInSeconds / 60\<rceil>"

definition ratePerMinute :: "config \<Rightarrow> CallType \<Rightarrow> int" where
  "ratePerMinute cfg callType =
     (if callType = VIDEO then orDefault (PRICE_PER_MINUTE_VIDEO cfg) 500
      else orDefault (PRICE_PER_MINUTE_VOICE cfg) 350)"

definition calculateActualCallCost :: "config \<Rightarrow> int \<Rightarrow> CallType \<Rightarrow> int" where
  "calculateActualCallCost cfg durationInSeconds callType =
     durationInMinutes durationInSeconds * ratePerMinute cfg callType"

text \<open>The rate and the charge that \<open>settleCallCharges\<close> computes before its transaction.\<close>

definition settleRatePerMinute :: "CallType \<Rightarrow> int" where
  "settleRatePerMinute callType = (if callType = VIDEO then 500 else 350)"

definition actualCharge :: "int \<Rightarrow> CallType \<Rightarrow> int" where
  "actualCharge actualDuration callType =
     \<lceil>rat_of_int actualDuration / 60\<rceil> * settleRatePerMinute callType"

section \<open>The store's primitives (the Prisma client calls the services make)\<close>

text \<open>
  \<open>prisma.$transaction(body)\<close>: the body's writes are kept when it returns and
  dropped when it throws.
\<close>

definition atomically :: "(db \<Rightarrow> error + 'a \<times> db) \<Rightarrow> db \<Rightarrow> (error + 'a) \<times> db" where
  "atomically body d =
     (case body d of Inl e \<Rightarrow> (Inl e, d) | Inr (v, d') \<Rightarrow> (Inr v, d'))"

text \<open>
  \<open>account.update({where: {id}, data: {balance: {increment: n}}})\<close> and its
  \<open>decrement\<close> twin. Every id the services pass was read from the table inside
  the same transaction, so the row exists.
\<close>

definition bump :: "nat \<Rightarrow> int \<Rightarrow> account \<Rightarrow> account" where
  "bump i n a = (if acc_id a = i then a\<lparr>balance := balance a + n\<rparr> else a)"

definition increment :: "nat \<Rightarrow> int \<Rightarrow> db \<Rightarrow> db" where
  "increment i n d = d\<lparr>accounts := map (bump i n) (accounts d)\<rparr>"

definition decrement :: "nat \<Rightarrow> int \<Rightarrow> db \<Rightarrow> db" where
  "decrement i n d =
     d\<lparr>accounts := map (\<lambda>a. if acc_id a = i then a\<lparr>balance := balance a - n\<rparr> else a) (accounts d)\<rparr>"

definition createEntry :: "entry \<Rightarrow> db \<Rightarrow> db" where
  "createEntry e d = d\<lparr>entries := entries d @ [e]\<rparr>"

text \<open>
  \<open>transaction.create\<close>: the row gets a fresh id; the unique index
  \<open>transactions_idempotencyKey_key\<close> rejects a key that a row already holds
  (rows without a key never collide).
\<close>

definition insertTransaction :: "transaction \<Rightarrow> db \<Rightarrow> db" where
  "insertTransaction t d = d\<lparr>transactions := transactions d @ [t], nextId := Suc (nextId d)\<rparr>"

definition createTransaction :: "transaction \<Rightarrow> db \<Rightarrow> error + transaction \<times> db" where
  "createTransaction dat d =
     (if idempotencyKey dat \<noteq> None
         \<and> idempotencyKey dat \<in> set (map idempotencyKey (transactions d))
      then Inl UniqueConstraintViolation
      else Inr (dat\<lparr>tx_id := nextId d\<rparr>, insertTransaction (dat\<lparr>tx_id := nextId d\<rparr>) d))"

definition insertAccount :: "account \<Rightarrow> db \<Rightarrow> db" where
  "insertAccount a d = d\<lparr>accounts := accounts d @ [a], nextId := Suc (nextId d)\<rparr>"

definition createAccount :: "nat option \<Rightarrow> AccountType \<Rightarrow> int \<Rightarrow> db \<Rightarrow> account \<times> db" where
  "createAccount uid ty bal d =
     (let a = \<lparr>acc_id = nextId d, acc_userId = uid, accountType = ty, balance = bal\<rparr>
      in (a, insertAccount a d))"

definition insertUser :: "user \<Rightarrow> db \<Rightarrow> db" where
  "insertUser u d = d\<lparr>users := users d @ [u], nextId := Suc (nextId d)\<rparr>"

definition updateStatus :: "nat \<Rightarrow> TransactionStatus \<Rightarrow> db \<Rightarrow> db" where
  "updateStatus i st d =
     d\<lparr>transactions := map (\<lambda>t. if tx_id t = i then t\<lparr>tx_status := st\<rparr> else t) (transactions d)\<rparr>"

section \<open>WalletService (wallet.service.ts)\<close>

text \<open>
  Lookups are \<open>account.findFirst\<close> calls without \<open>orderBy\<close>: when several rows
  match, the database decides which one it returns, and a later update may
  change that. The model reads the rows in list order and updates them in place.
  The two agree wherever at most one row matches: a user who owns one account,
  the USER_WALLET of a user, the revenue account. What is stated below about a
  user who may own several accounts (an influencer after a top-up owns two) is
  stated on the total over the user's accounts, \<open>ownedTotal\<close>, which does not
  depend on the row chosen.
\<close>

definition getBalance :: "db \<Rightarrow> nat \<Rightarrow> int" where
  "getBalance d userId =
     (case find (\<lambda>a. acc_userId a = Some userId) (accounts d) of
        None \<Rightarrow> 0
      | Some a \<Rightarrow> balance a)"

definition MESSAGE_CHARGE :: int where
  "MESSAGE_CHARGE = 100"

definition processMessageCharge :: "db \<Rightarrow> nat \<Rightarrow> nat \<Rightarrow> string \<Rightarrow> (error + transaction) \<times> db" where
  "processMessageCharge d0 senderId receiverId messageId =
     atomically (\<lambda>d.
       case find (\<lambda>a. acc_userId a = Some senderId) (accounts d) of
         None \<Rightarrow> Inl InsufficientBalanceForMessage
       | Some senderAccount \<Rightarrow>
           if balance senderAccount < MESSAGE_CHARGE then Inl InsufficientBalanceForMessage
           else (case find (\<lambda>a. acc_userId a = Some receiverId) (accounts d) of
             None \<Rightarrow> Inl ReceiverAccountNotFound
           | Some receiverAccount \<Rightarrow>
               (case createTransaction
                       \<lparr>tx_id = 0, idempotencyKey = None, tx_type = CHAT_PAYMENT,
                        tx_status = COMPLETED, referenceId = Some messageId,
                        tx_userId = Some senderId, tx_amount = MESSAGE_CHARGE\<rparr> d of
                  Inl e \<Rightarrow> Inl e
                | Inr (t, d1) \<Rightarrow>
                    Inr (t,
                      increment (acc_id receiverAccount) MESSAGE_CHARGE
                       (decrement (acc_id senderAccount) MESSAGE_CHARGE
                         (createEntry \<lparr>transactionId = tx_id t, accountId = acc_id receiverAccount,
                                       amount = MESSAGE_CHARGE, direction = CREDIT\<rparr>
                           (createEntry \<lparr>transactionId = tx_id t, accountId = acc_id senderAccount,
                                         amount = MESSAGE_CHARGE, direction = DEBIT\<rparr> d1))))))) d0"

definition holdFundsForCall :: "db \<Rightarrow> nat \<Rightarrow> int \<Rightarrow> string \<Rightarrow> (error + transaction) \<times> db" where
  "holdFundsForCall d0 userId estimatedAmount callId =
     atomically (\<lambda>d.
       case find (\<lambda>a. acc_userId a = Some userId) (accounts d) of
         None \<Rightarrow> Inl InsufficientBalanceForCall
       | Some userAccount \<Rightarrow>
           if balance userAccount < estimatedAmount then Inl InsufficientBalanceForCall
           else (case createTransaction
                        \<lparr>tx_id = 0, idempotencyKey = None, tx_type = HOLD_FUNDS,
                         tx_status = HELD, referenceId = Some callId,
                         tx_userId = Some userId, tx_amount = estimatedAmount\<rparr> d of
                   Inl e \<Rightarrow> Inl e
                 | Inr (t, d1) \<Rightarrow> Inr (t, decrement (acc_id userAccount) estimatedAmount d1))) d0"

definition settleCallCharges ::
  "db \<Rightarrow> string \<Rightarrow> int \<Rightarrow> CallType \<Rightarrow> nat \<Rightarrow> nat \<Rightarrow> (error + transaction) \<times> db" where
  "settleCallCharges d0 callId actualDuration callType callerId receiverId =
     atomically (\<lambda>d.
       case find (\<lambda>a. acc_userId a = Some receiverId) (accounts d) of
         None \<Rightarrow> Inl ReceiverAccountNotFound
       | Some receiverAccount \<Rightarrow>
           (case createTransaction
                   \<lparr>tx_id = 0, idempotencyKey = None, tx_type = CALL_PAYMENT,
                    tx_status = COMPLETED, referenceId = Some callId,
                    tx_userId = Some callerId,
                    tx_amount = actualCharge actualDuration callType\<rparr> d of
              Inl e \<Rightarrow> Inl e
            | Inr (t, d1) \<Rightarrow>
                Inr (t, increment (acc_id receiverAccount)
                          (actualCharge actualDuration callType) d1))) d0"

definition refundHeldFunds :: "db \<Rightarrow> string \<Rightarrow> nat \<Rightarrow> int \<Rightarrow> (error + transaction) \<times> db" where
  "refundHeldFunds d0 callId userId refundAmount =
     atomically (\<lambda>d.
       case find (\<lambda>a. acc_userId a = Some userId) (accounts d) of
         None \<Rightarrow> Inl UserAccountNotFound
       | Some userAccount \<Rightarrow>
           (case createTransaction
                   \<lparr>tx_id = 0, idempotencyKey = None, tx_type = REFUND,
                    tx_status = COMPLETED, referenceId = Some callId,
                    tx_userId = Some userId, tx_amount = refundAmount\<rparr> d of
              Inl e \<Rightarrow> Inl e
            | Inr (t, d1) \<Rightarrow> Inr (t, increment (acc_id userAccount) refundAmount d1))) d0"

text \<open>
  The three entries and the three balance updates that \<open>processMessagePayment\<close>
  and \<open>processCallPayment\<close> both write, for the transaction \<open>t\<close>.
\<close>

definition transferEntries :: "transaction \<Rightarrow> account \<Rightarrow> account \<Rightarrow> account \<Rightarrow> int \<Rightarrow> db \<Rightarrow> db" where
  "transferEntries t payer receiver revenue amt d =
     createEntry \<lparr>transactionId = tx_id t, accountId = acc_id revenue,
                  amount = revenueAmount amt, direction = CREDIT\<rparr>
      (createEntry \<lparr>transactionId = tx_id t, accountId = acc_id receiver,
                    amount = receiverAmount amt, direction = CREDIT\<rparr>
        (createEntry \<lparr>transactionId = tx_id t, accountId = acc_id payer,
                      amount = amt, direction = DEBIT\<rparr> d))"

definition transferBalances :: "account \<Rightarrow> account \<Rightarrow> account \<Rightarrow> int \<Rightarrow> db \<Rightarrow> db" where
  "transferBalances payer receiver revenue amt d =
     increment (acc_id revenue) (revenueAmount amt)
      (increment (acc_id receiver) (receiverAmount amt)
        (decrement (acc_id payer) amt d))"

text \<open>
  \<open>now\<close> and \<open>rnd\<close> are the renderings of \<open>Date.now()\<close> and of the random suffix
  that make the idempotency key \<open>msg_<now>_<rnd>\<close>.
\<close>

definition processMessagePayment ::
  "db \<Rightarrow> nat \<Rightarrow> nat \<Rightarrow> int \<Rightarrow> string \<Rightarrow> string \<Rightarrow> (error + unit) \<times> db" where
  "processMessagePayment d0 senderId receiverId amt now rnd =
     atomically (\<lambda>d.
       case find (\<lambda>a. acc_userId a = Some senderId \<and> accountType a = USER_WALLET) (accounts d) of
         None \<Rightarrow> Inl RequiredAccountsNotFound
       | Some senderAccount \<Rightarrow>
       (case find (\<lambda>a. acc_userId a = Some receiverId \<and> accountType a = USER_WALLET) (accounts d) of
         None \<Rightarrow> Inl RequiredAccountsNotFound
       | Some receiverAccount \<Rightarrow>
       (case find (\<lambda>a. accountType a = REVENUE) (accounts d) of
         None \<Rightarrow> Inl RequiredAccountsNotFound
       | Some revenueAccount \<Rightarrow>
           if balance senderAccount < amt then Inl InsufficientBalance
           else (case createTransaction
                        \<lparr>tx_id = 0, idempotencyKey = Some (''msg_'' @ now @ ''_'' @ rnd),
                         tx_type = CHAT_PAYMENT, tx_status = COMPLETED, referenceId = None,
                         tx_userId = Some senderId, tx_amount = amt\<rparr> d of
                   Inl e \<Rightarrow> Inl e
                 | Inr (t, d1) \<Rightarrow>
                     Inr ((), transferBalances senderAccount receiverAccount revenueAccount amt
                                (transferEntries t senderAccount receiverAccount revenueAccount amt d1)))))) d0"

text \<open>The idempotency key is \<open>call_<callId>_<now>\<close>, the refund's key adds \<open>_refund\<close>.\<close>

definition processCallPayment ::
  "db \<Rightarrow> nat \<Rightarrow> nat \<Rightarrow> int \<Rightarrow> int \<Rightarrow> string \<Rightarrow> string \<Rightarrow> (error + unit) \<times> db" where
  "processCallPayment d0 initiatorId receiverId amt refundAmount callId now =
     atomically (\<lambda>d.
       case find (\<lambda>a. acc_userId a = Some initiatorId \<and> accountType a = USER_WALLET) (accounts d) of
         None \<Rightarrow> Inl RequiredAccountsNotFound
       | Some initiatorAccount \<Rightarrow>
       (case find (\<lambda>a. acc_userId a = Some receiverId \<and> accountType a = USER_WALLET) (accounts d) of
         None \<Rightarrow> Inl RequiredAccountsNotFound
       | Some receiverAccount \<Rightarrow>
       (case find (\<lambda>a. accountType a = REVENUE) (accounts d) of
         None \<Rightarrow> Inl RequiredAccountsNotFound
       | Some revenueAccount \<Rightarrow>
           (case createTransaction
                   \<lparr>tx_id = 0, idempotencyKey = Some (''call_'' @ callId @ ''_'' @ now),
                    tx_type = CALL_PAYMENT, tx_status = COMPLETED, referenceId = Some callId,
                    tx_userId = Some initiatorId, tx_amount = amt\<rparr> d of
              Inl e \<Rightarrow> Inl e
            | Inr (t, d1) \<Rightarrow>
                (let d2 = transferBalances initiatorAccount receiverAccount revenueAccount amt
                            (transferEntries t initiatorAccount receiverAccount revenueAccount amt d1)
                 in if refundAmount > 0
                    then (case createTransaction
                                 \<lparr>tx_id = 0,
                                  idempotencyKey = Some (''call_'' @ callId @ ''_'' @ now @ ''_refund''),
                                  tx_type = REFUND, tx_status = COMPLETED,
                                  referenceId = Some callId, tx_userId = Some initiatorId,
                                  tx_amount = refundAmount\<rparr> d2 of
                            Inl e \<Rightarrow> Inl e
                          | Inr (refundTransaction, d3) \<Rightarrow>
                              Inr ((), increment (acc_id initiatorAccount) refundAmount
                                         (createEntry
                                            \<lparr>transactionId = tx_id refundTransaction,
                                             accountId = acc_id initiatorAccount,
                                             amount = refundAmount, direction = CREDIT\<rparr> d3)))
                    else Inr ((), d2)))))) d0"

section \<open>GooglePayService (the top-up and withdrawal paths)\<close>

text \<open>The mock verification returns true on both of its paths.\<close>

definition verifyPaymentWithGateway :: "config \<Rightarrow> bool" where
  "verifyPaymentWithGateway cfg =
     (if GOOGLE_PAY_ENVIRONMENT cfg = Some ''TEST'' then True else True)"

definition addMoneyToWallet :: "db \<Rightarrow> nat \<Rightarrow> int \<Rightarrow> nat \<Rightarrow> (error + unit) \<times> db" where
  "addMoneyToWallet d0 userId amt txId =
     atomically (\<lambda>d.
       (let (userAccount, d1) =
              (case find (\<lambda>a. acc_userId a = Some userId \<and> accountType a = USER_WALLET) (accounts d) of
                 None \<Rightarrow> createAccount (Some userId) USER_WALLET 0 d
               | Some a \<Rightarrow> (a, d))
        in Inr ((), increment (acc_id userAccount) amt
                      (createEntry \<lparr>transactionId = txId, accountId = acc_id userAccount,
                                    amount = amt, direction = CREDIT\<rparr> d1)))) d0"

text \<open>
  The payment data and the payment method only reach the metadata of the
  transaction, which the model does not keep; the payment response is taken to
  be well-formed (a malformed one makes the call throw before its first write). The transaction row is written
  outside the database transaction of \<open>addMoneyToWallet\<close>, without an
  idempotency key. The result is the id of the new transaction.
\<close>

definition processPayment :: "config \<Rightarrow> db \<Rightarrow> nat \<Rightarrow> int \<Rightarrow> (error + nat) \<times> db" where
  "processPayment cfg d userId amt =
     (if amt < orDefault (MIN_TOPUP_AMOUNT cfg) 10000 then (Inl MinimumTopUpAmount, d)
      else if \<not> verifyPaymentWithGateway cfg then (Inl PaymentVerificationFailed, d)
      else (case createTransaction
                    \<lparr>tx_id = 0, idempotencyKey = None, tx_type = TOP_UP,
                     tx_status = COMPLETED, referenceId = None,
                     tx_userId = Some userId, tx_amount = amt\<rparr> d of
              Inl e \<Rightarrow> (Inl e, d)
            | Inr (t, d1) \<Rightarrow>
                (case addMoneyToWallet d1 userId amt (tx_id t) of
                   (Inl e, d2) \<Rightarrow> (Inl e, d2)
                 | (Inr u, d2) \<Rightarrow> (Inr (tx_id t), d2))))"

definition deductMoneyFromWallet :: "db \<Rightarrow> nat \<Rightarrow> int \<Rightarrow> nat \<Rightarrow> (error + unit) \<times> db" where
  "deductMoneyFromWallet d0 userId amt txId =
     atomically (\<lambda>d.
       case find (\<lambda>a. acc_userId a = Some userId \<and> accountType a = USER_WALLET) (accounts d) of
         None \<Rightarrow> Inl UserWalletNotFound
       | Some userAccount \<Rightarrow>
           Inr ((), decrement (acc_id userAccount) amt
                      (createEntry \<lparr>transactionId = txId, accountId = acc_id userAccount,
                                    amount = amt, direction = DEBIT\<rparr> d))) d0"

text \<open>
  The withdrawal: three checks, then the PENDING transaction row, then the
  deduction in its own database transaction, then the status update. A failure
  of the deduction leaves the PENDING row behind.
\<close>

definition processWithdrawal :: "config \<Rightarrow> db \<Rightarrow> nat \<Rightarrow> int \<Rightarrow> (error + nat) \<times> db" where
  "processWithdrawal cfg d userId amt =
     (if amt < orDefault (MIN_WITHDRAWAL_AMOUNT cfg) 50000 then (Inl MinimumWithdrawalAmount, d)
      else if amt > orDefault (MAX_WITHDRAWAL_AMOUNT cfg) 10000000
        then (Inl MaximumWithdrawalAmount, d)
      else if getBalance d userId < amt then (Inl InsufficientBalanceForWithdrawal, d)
      else (case createTransaction
                    \<lparr>tx_id = 0, idempotencyKey = None, tx_type = WITHDRAWAL,
                     tx_status = PENDING, referenceId = None,
                     tx_userId = Some userId, tx_amount = amt\<rparr> d of
              Inl e \<Rightarrow> (Inl e, d)
            | Inr (t, d1) \<Rightarrow>
                (case deductMoneyFromWallet d1 userId amt (tx_id t) of
                   (Inl e, d2) \<Rightarrow> (Inl e, d2)
                 | (Inr u, d2) \<Rightarrow> (Inr (tx_id t), updateStatus (tx_id t) COMPLETED d2))))"

section \<open>AuthService.register\<close>

text \<open>
  Registration refuses a taken email or username, then creates the user and the
  wallet in one database transaction: an INFLUENCER_WALLET with balance 0 for an
  influencer, a USER_WALLET with balance 10000 for a user. The result is the new
  user's id.
\<close>

definition register :: "db \<Rightarrow> string \<Rightarrow> string \<Rightarrow> UserRole \<Rightarrow> (error + nat) \<times> db" where
  "register d0 mail name rl =
     (if find (\<lambda>u. email u = mail \<or> username u = name) (users d0) \<noteq> None
      then (Inl UserAlreadyExists, d0)
      else atomically (\<lambda>d.
             (let u = \<lparr>user_id = nextId d, email = mail, username = name, role = rl\<rparr>;
                  d1 = insertUser u d;
                  (a, d2) = createAccount (Some (user_id u))
                              (if rl = INFLUENCER then INFLUENCER_WALLET else USER_WALLET)
                              (if rl = USER then 10000 else 0) d1
              in Inr (user_id u, d2))) d0)"

section \<open>Observations on the store\<close>

text \<open>The sum of the amounts of the entries of one direction in a list of entries.\<close>

definition sumDir :: "EntryDirection \<Rightarrow> entry list \<Rightarrow> int" where
  "sumDir dir es = sum_list (map amount (filter (\<lambda>e. direction e = dir) es))"

text \<open>The entries of a transaction, and the entries against an account.\<close>

definition txEntries :: "db \<Rightarrow> nat \<Rightarrow> entry list" where
  "txEntries d tid = filter (\<lambda>e. transactionId e = tid) (entries d)"

definition accEntries :: "db \<Rightarrow> nat \<Rightarrow> entry list" where
  "accEntries d i = filter (\<lambda>e. accountId e = i) (entries d)"

text \<open>Credits minus debits over the entries against an account.\<close>

definition net :: "db \<Rightarrow> nat \<Rightarrow> int" where
  "net d i = sumDir CREDIT (accEntries d i) - sumDir DEBIT (accEntries d i)"

text \<open>The balance of the account row with a given id.\<close>

definition balanceOf :: "db \<Rightarrow> nat \<Rightarrow> int option" where
  "balanceOf d i = map_option balance (find (\<lambda>a. acc_id a = i) (accounts d))"

text \<open>The balance of a user's USER_WALLET account, 0 when there is none.\<close>

definition walletBalance :: "db \<Rightarrow> nat \<Rightarrow> int" where
  "walletBalance d userId =
     (case find (\<lambda>a. acc_userId a = Some userId \<and> accountType a = USER_WALLET) (accounts d) of
        None \<Rightarrow> 0
      | Some a \<Rightarrow> balance a)"

text \<open>
  The total of the balances of the accounts a user owns. A lookup by
  \<open>findFirst({where: {userId}})\<close> carries no \<open>orderBy\<close>: for a user who owns
  several accounts the database decides which row it returns, while the model
  reads the rows in list order. The total does not depend on that choice.
\<close>

definition ownedTotal :: "db \<Rightarrow> nat \<Rightarrow> int" where
  "ownedTotal d userId =
     sum_list (map balance (filter (\<lambda>a. acc_userId a = Some userId) (accounts d)))"

text \<open>Referential integrity of the entries: no entry names an id that was not issued yet.\<close>

definition entriesKnown :: "db \<Rightarrow> bool" where
  "entriesKnown d = list_all (\<lambda>e. transactionId e < nextId d) (entries d)"

text \<open>
  Balance-entry consistency of a store: every account's balance is the net of
  the entries against it; account ids and the account ids in entries were
  issued by the store.
\<close>

definition consistent :: "db \<Rightarrow> bool" where
  "consistent d =
     (list_all (\<lambda>a. acc_id a < nextId d \<and> balance a = net d (acc_id a)) (accounts d)
      \<and> list_all (\<lambda>e. accountId e < nextId d) (entries d))"

text \<open>
  The difference between an account's balance and the net of the entries
  against it, and the list of these differences, account by account.
\<close>

definition gap :: "db \<Rightarrow> account \<Rightarrow> int" where
  "gap d a = balance a - net d (acc_id a)"

definition gaps :: "db \<Rightarrow> int list" where
  "gaps d = map (gap d) (accounts d)"

text \<open>Account ids and the account ids in entries were issued by the store.\<close>

definition issued :: "db \<Rightarrow> bool" where
  "issued d =
     (list_all (\<lambda>a. acc_id a < nextId d) (accounts d)
      \<and> list_all (\<lambda>e. accountId e < nextId d) (entries d))"

text \<open>
  The store \<open>d'\<close> keeps the differences of \<open>d\<close>: its accounts are those of \<open>d\<close>,
  each with the difference it had, followed by new accounts with difference 0.
\<close>

definition keepsGaps :: "db \<Rightarrow> db \<Rightarrow> bool" where
  "keepsGaps d d' =
     (issued d' \<and> length (accounts d) \<le> length (accounts d')
      \<and> gaps d' = gaps d @ replicate (length (accounts d') - length (accounts d)) 0)"

text \<open>
  Writing one entry together with the balance update that matches it. The
  services write all entries of a transaction first and the balance updates
  after them; inside one database transaction the order does not show.
\<close>

definition post :: "entry \<Rightarrow> db \<Rightarrow> db" where
  "post e d =
     increment (accountId e) (if direction e = CREDIT then amount e else - amount e)
       (createEntry e d)"

section \<open>Sequences of operations\<close>

text \<open>The ledger operations as values, to run them in sequence; a failed operation
  leaves the store its function returns.\<close>

datatype ledgerOp =
  MessageCharge nat nat string
  | MessagePayment nat nat int string string
  | CallPayment nat nat int int string string
  | TopUp nat int
  | Withdraw nat int
  | HoldFunds nat int string
  | SettleCall string int CallType nat nat
  | RefundHeld string nat int

fun perform :: "config \<Rightarrow> db \<Rightarrow> ledgerOp \<Rightarrow> db" where
  "perform cfg d (MessageCharge s r m) = snd (processMessageCharge d s r m)"
| "perform cfg d (MessagePayment s r amt now rnd) = snd (processMessagePayment d s r amt now rnd)"
| "perform cfg d (CallPayment i r amt refundAmount callId now) =
     snd (processCallPayment d i r amt refundAmount callId now)"
| "perform cfg d (TopUp u amt) = snd (processPayment cfg d u amt)"
| "perform cfg d (Withdraw u amt) = snd (processWithdrawal cfg d u amt)"
| "perform cfg d (HoldFunds u amt callId) = snd (holdFundsForCall d u amt callId)"
| "perform cfg d (SettleCall callId dur ty c r) = snd (settleCallCharges d callId dur ty c r)"
| "perform cfg d (RefundHeld callId u amt) = snd (refundHeldFunds d callId u amt)"

definition run :: "config \<Rightarrow> db \<Rightarrow> ledgerOp list \<Rightarrow> db" where
  "run cfg d ops = foldl (perform cfg) d ops"

fun writesEntries :: "ledgerOp \<Rightarrow> bool" where
  "writesEntries (HoldFunds u amt callId) = False"
| "writesEntries (SettleCall callId dur ty c r) = False"
| "writesEntries (RefundHeld callId u amt) = False"
| "writesEntries x = True"

section \<open>Concrete stores\<close>

text \<open>The configuration with no key set but the test environment: every default applies.\<close>

definition cfg0 :: config where
  "cfg0 = \<lparr>PRICE_PER_MESSAGE = None, PRICE_PER_MINUTE_VOICE = None,
           PRICE_PER_MINUTE_VIDEO = None, MIN_TOPUP_AMOUNT = None,
           MIN_WITHDRAWAL_AMOUNT = None, MAX_WITHDRAWAL_AMOUNT = None,
           GOOGLE_PAY_ENVIRONMENT = Some ''TEST''\<rparr>"

text \<open>
  Two users with USER_WALLET accounts, the first holding 10000, and the revenue
  account.
\<close>

definition dbA :: db where
  "dbA = \<lparr>users = [\<lparr>user_id = 1, email = ''a@x'', username = ''alice'', role = USER\<rparr>,
                  \<lparr>user_id = 2, email = ''b@x'', username = ''bob'', role = USER\<rparr>],
          accounts = [\<lparr>acc_id = 0, acc_userId = None, accountType = REVENUE, balance = 0\<rparr>,
                      \<lparr>acc_id = 3, acc_userId = Some 1, accountType = USER_WALLET, balance = 10000\<rparr>,
                      \<lparr>acc_id = 4, acc_userId = Some 2, accountType = USER_WALLET, balance = 0\<rparr>],
          transactions = [], entries = [], nextId = 5\<rparr>"

text \<open>One user whose wallet holds 40000.\<close>

definition dbW :: db where
  "dbW = \<lparr>users = [\<lparr>user_id = 1, email = ''a@x'', username = ''alice'', role = USER\<rparr>],
          accounts = [\<lparr>acc_id = 2, acc_userId = Some 1, accountType = USER_WALLET, balance = 40000\<rparr>],
          transactions = [], entries = [], nextId = 3\<rparr>"

text \<open>
  The store seeded with the revenue account alone; the store after a user (id 1)
  and an influencer (id 3) have registered in it; and that store after the
  influencer has topped up 10000.
\<close>

definition dbSeed :: db where
  "dbSeed = \<lparr>users = [],
             accounts = [\<lparr>acc_id = 0, acc_userId = None, accountType = REVENUE, balance = 0\<rparr>],
             transactions = [], entries = [], nextId = 1\<rparr>"

definition dbReg :: db where
  "dbReg = snd (register (snd (register dbSeed ''a@x'' ''alice'' USER)) ''b@x'' ''bella'' INFLUENCER)"


text \<open>
  The store \<open>dbA\<close> after user 1 has put 700 on hold for the call \<open>c1\<close>; that
  store after the call has been settled once (61 seconds of voice, two minutes
  at 350); and \<open>dbA\<close> after user 1 has topped up 10000 once.
\<close>

definition dbH :: db where
  "dbH = snd (holdFundsForCall dbA 1 700 ''c1'')"

definition dbSettled :: db where
  "dbSettled = snd (settleCallCharges dbH ''c1'' 61 VOICE 1 2)"

definition dbPaid :: db where
  "dbPaid = snd (processPayment cfg0 dbA 1 10000)"

text \<open>The configuration \<open>cfg0\<close> with the minimum withdrawal lowered to 1000.\<close>

definition cfgLow :: config where
  "cfgLow = cfg0\<lparr>MIN_WITHDRAWAL_AMOUNT := Some 1000\<rparr>"

text \<open>Two users with empty wallets and the revenue account; the same after user 1 topped up 10000.\<close>

definition dbZ :: db where
  "dbZ = \<lparr>users = [\<lparr>user_id = 1, email = ''a@x'', username = ''alice'', role = USER\<rparr>,
                  \<lparr>user_id = 2, email = ''b@x'', username = ''bob'', role = USER\<rparr>],
          accounts = [\<lparr>acc_id = 0, acc_userId = None, accountType = REVENUE, balance = 0\<rparr>,
                      \<lparr>acc_id = 3, acc_userId = Some 1, accountType = USER_WALLET, balance = 0\<rparr>,
                      \<lparr>acc_id = 4, acc_userId = Some 2, accountType = USER_WALLET, balance = 0\<rparr>],
          transactions = [], entries = [], nextId = 5\<rparr>"

definition dbZ1 :: db where
  "dbZ1 = snd (processPayment cfg0 dbZ 1 10000)"

text \<open>
  A run of entry-writing operations in the store of the registered user 1 and
  influencer 3; the top-up creates a USER_WALLET for the influencer, the last
  operation fails on its amount.
\<close>

definition opsReg :: "ledgerOp list" where
  "opsReg =
     [MessageCharge 1 3 ''m1'',
      TopUp 3 10000,
      MessagePayment 1 3 100 ''1752163200000'' ''k3x9q'',
      CallPayment 1 3 700 50 ''c1'' ''1752163200001'',
      Withdraw 1 5000,
      Withdraw 3 90000000]"

section \<open>Arithmetic of the split and of the per-minute rounding\<close>

lemma receiverAmount_div [simp]: "receiverAmount amt = (amt * 9) div 10"
proof -
  have "rat_of_int amt * (9 / 10) = rat_of_int (amt * 9) / rat_of_int 10"
    by simp
  then show ?thesis
    unfolding receiverAmount_def by (simp only: floor_divide_of_int_eq)
qed

lemma quot_lower: "0 \<le> r \<Longrightarrow> q * 60 + r = d + 59 \<Longrightarrow> 60 * (q - 1) < (d::int)"
  by arith

lemma quot_upper: "r < 60 \<Longrightarrow> q * 60 + r = d + 59 \<Longrightarrow> d \<le> 60 * (q::int)"
  by arith

lemma minutes_lower: "60 * ((d + 59) div 60 - 1) < (d::int)"
  by (rule quot_lower [of "(d + 59) mod 60"]) simp_all

lemma minutes_upper: "d \<le> 60 * ((d + 59) div (60::int))"
  by (rule quot_upper [of "(d + 59) mod 60"]) simp_all

lemma neg_div_sixty: "- ((- d) div 60) = (d + 59) div (60::int)"
proof -
  have "(- d) div 60 = - ((d + 59) div 60)"
  proof (rule int_div_pos_eq [where r = "59 - (d + 59) mod 60"])
    show "- d = 60 * - ((d + 59) div 60) + (59 - (d + 59) mod 60)"
      using div_mult_mod_eq [of "d + 59" 60] by linarith
    show "0 \<le> 59 - (d + 59) mod 60" using pos_mod_bound [of 60 "d + 59"] by linarith
    show "59 - (d + 59) mod 60 < 60" using pos_mod_sign [of 60 "d + 59"] by linarith
  qed
  then show ?thesis by simp
qed

lemma ceiling_sixty: "\<lceil>rat_of_int d / 60\<rceil> = (d + 59) div 60"
proof -
  have "\<lceil>rat_of_int d / 60\<rceil> = - \<lfloor>rat_of_int (- d) / rat_of_int 60\<rfloor>"
    by (simp add: ceiling_def)
  also have "\<dots> = - ((- d) div 60)"
    by (simp only: floor_divide_of_int_eq)
  finally show ?thesis by (simp only: neg_div_sixty)
qed

lemma durationInMinutes_div [simp]: "durationInMinutes d = (d + 59) div 60"
  by (simp add: durationInMinutes_def ceiling_sixty)

lemma actualCharge_div [simp]:
  "actualCharge d k = ((d + 59) div 60) * settleRatePerMinute k"
  by (simp add: actualCharge_def ceiling_sixty)

text \<open>
  C7. For every gross amount, the receiver's share is the floor of nine tenths of
  it, and the receiver's share and the revenue share add up to the gross amount
  exactly.
\<close>

theorem split_correct:
  "receiverAmount G = \<lfloor>real_of_int G * 0.9\<rfloor>
   \<and> receiverAmount G + revenueAmount G = G
   \<and> receiverAmount G = (G * 9) div 10"
proof -
  have "real_of_int G * 0.9 = real_of_int (G * 9) / real_of_int 10"
    by simp
  then have "\<lfloor>real_of_int G * 0.9\<rfloor> = (G * 9) div 10"
    by (simp only: floor_divide_of_int_eq)
  then show ?thesis
    by (simp add: revenueAmount_def)
qed

text \<open>
  C8. For every duration in seconds and call kind, the call cost is the number of
  started minutes, the ceiling of duration / 60, times the per-minute rate of the
  kind: the billed minutes cover the duration and the minute before the last does
  not. The charge of \<open>settleCallCharges\<close> is computed the same way at the rates
  350 and 500.
\<close>

theorem call_cost_rounds_up:
  "calculateActualCallCost cfg d k = \<lceil>real_of_int d / 60\<rceil> * ratePerMinute cfg k
   \<and> d \<le> 60 * durationInMinutes d
   \<and> 60 * (durationInMinutes d - 1) < d
   \<and> actualCharge d k = \<lceil>real_of_int d / 60\<rceil> * settleRatePerMinute k"
proof -
  have "\<lceil>real_of_int d / 60\<rceil> = - \<lfloor>real_of_int (- d) / real_of_int 60\<rfloor>"
    by (simp add: ceiling_def)
  also have "\<dots> = - ((- d) div 60)"
    by (simp only: floor_divide_of_int_eq)
  finally have c: "\<lceil>real_of_int d / 60\<rceil> = (d + 59) div 60"
    by (simp only: neg_div_sixty)
  have u: "d \<le> 60 * ((d + 59) div 60)" by (rule minutes_upper)
  have l: "60 * ((d + 59) div 60 - 1) < d" by (rule minutes_lower)
  show ?thesis
    using c u l by (simp add: calculateActualCallCost_def)
qed

lemma call_cost_examples:
  "calculateActualCallCost cfg0 60 VOICE = 350"
  "calculateActualCallCost cfg0 61 VOICE = 700"
  "calculateActualCallCost cfg0 1 VIDEO = 500"
  "calculateActualCallCost cfg0 0 VIDEO = 0"
  "actualCharge 119 VIDEO = 1000"
  by (simp_all add: calculateActualCallCost_def ratePerMinute_def cfg0_def orDefault_def
      settleRatePerMinute_def)

section \<open>Facts about the primitives\<close>

lemma decrement_increment: "decrement i n d = increment i (- n) d"
  by (simp add: decrement_def increment_def bump_def)

lemma increment_fields [simp]:
  "users (increment i n d) = users d"
  "accounts (increment i n d) = map (bump i n) (accounts d)"
  "transactions (increment i n d) = transactions d"
  "entries (increment i n d) = entries d"
  "nextId (increment i n d) = nextId d"
  by (simp_all add: increment_def)

lemma decrement_fields [simp]:
  "users (decrement i n d) = users d"
  "accounts (decrement i n d) = map (bump i (- n)) (accounts d)"
  "transactions (decrement i n d) = transactions d"
  "entries (decrement i n d) = entries d"
  "nextId (decrement i n d) = nextId d"
  by (simp_all add: decrement_increment)

lemma createEntry_fields [simp]:
  "users (createEntry e d) = users d"
  "accounts (createEntry e d) = accounts d"
  "transactions (createEntry e d) = transactions d"
  "entries (createEntry e d) = entries d @ [e]"
  "nextId (createEntry e d) = nextId d"
  by (simp_all add: createEntry_def)

lemma insertTransaction_fields [simp]:
  "users (insertTransaction t d) = users d"
  "accounts (insertTransaction t d) = accounts d"
  "transactions (insertTransaction t d) = transactions d @ [t]"
  "entries (insertTransaction t d) = entries d"
  "nextId (insertTransaction t d) = Suc (nextId d)"
  by (simp_all add: insertTransaction_def)

lemma insertAccount_fields [simp]:
  "users (insertAccount a d) = users d"
  "accounts (insertAccount a d) = accounts d @ [a]"
  "transactions (insertAccount a d) = transactions d"
  "entries (insertAccount a d) = entries d"
  "nextId (insertAccount a d) = Suc (nextId d)"
  by (simp_all add: insertAccount_def)

lemma insertUser_fields [simp]:
  "users (insertUser u d) = users d @ [u]"
  "accounts (insertUser u d) = accounts d"
  "transactions (insertUser u d) = transactions d"
  "entries (insertUser u d) = entries d"
  "nextId (insertUser u d) = Suc (nextId d)"
  by (simp_all add: insertUser_def)

lemma updateStatus_fields [simp]:
  "users (updateStatus i st d) = users d"
  "accounts (updateStatus i st d) = accounts d"
  "entries (updateStatus i st d) = entries d"
  "nextId (updateStatus i st d) = nextId d"
  "length (transactions (updateStatus i st d)) = length (transactions d)"
  by (simp_all add: updateStatus_def)

lemma bump_fields [simp]:
  "acc_id (bump i n a) = acc_id a"
  "acc_userId (bump i n a) = acc_userId a"
  "accountType (bump i n a) = accountType a"
  "balance (bump i n a) = (if acc_id a = i then balance a + n else balance a)"
  by (simp_all add: bump_def)

lemma find_map_stable:
  "(\<And>a. P (f a) = P a) \<Longrightarrow> find P (map f xs) = map_option f (find P xs)"
  by (induction xs) simp_all


lemma find_in_set: "find P xs = Some a \<Longrightarrow> a \<in> set xs \<and> P a"
  by (induction xs) (auto split: if_splits)

lemma balanceOf_increment [simp]:
  "balanceOf (increment i n d) j =
     (if j = i then map_option (\<lambda>b. b + n) (balanceOf d j) else balanceOf d j)"
proof -
  have "find (\<lambda>a. acc_id a = j) (map (bump i n) (accounts d))
          = map_option (bump i n) (find (\<lambda>a. acc_id a = j) (accounts d))"
    by (rule find_map_stable) simp
  then show ?thesis
    by (cases "find (\<lambda>a. acc_id a = j) (accounts d)")
       (auto simp: balanceOf_def dest: find_in_set)
qed

lemma balanceOf_createEntry [simp]: "balanceOf (createEntry e d) j = balanceOf d j"
  by (simp add: balanceOf_def)

lemma balanceOf_insertTransaction [simp]: "balanceOf (insertTransaction t d) j = balanceOf d j"
  by (simp add: balanceOf_def)






section \<open>Withdrawal\<close>

text \<open>
  C9. A withdrawal whose amount is below the configured minimum, above the
  configured maximum, or above the user's balance fails with the corresponding
  error and returns the store as it was: no transaction, no entry, no balance
  change. A withdrawal of 50000 by a user whose balance is 40000 fails with
  insufficient balance.
\<close>

theorem withdraw_rejects:
  assumes "amt < orDefault (MIN_WITHDRAWAL_AMOUNT cfg) 50000
           \<or> orDefault (MAX_WITHDRAWAL_AMOUNT cfg) 10000000 < amt
           \<or> getBalance d userId < amt"
  shows "processWithdrawal cfg d userId amt =
           (Inl (if amt < orDefault (MIN_WITHDRAWAL_AMOUNT cfg) 50000 then MinimumWithdrawalAmount
                 else if orDefault (MAX_WITHDRAWAL_AMOUNT cfg) 10000000 < amt then MaximumWithdrawalAmount
                 else InsufficientBalanceForWithdrawal), d)"
  using assms by (auto simp: processWithdrawal_def)

theorem withdraw_rejects_witness:
  "processWithdrawal cfg0 dbW 1 50000 = (Inl InsufficientBalanceForWithdrawal, dbW)"
  using withdraw_rejects [of 50000 cfg0 dbW 1]
  by (simp add: cfg0_def dbW_def getBalance_def orDefault_def)

section \<open>The charge transfer of a message payment\<close>


lemma dbReg_eq:
  "dbReg = \<lparr>users = [\<lparr>user_id = 1, email = ''a@x'', username = ''alice'', role = USER\<rparr>,
                    \<lparr>user_id = 3, email = ''b@x'', username = ''bella'', role = INFLUENCER\<rparr>],
            accounts = [\<lparr>acc_id = 0, acc_userId = None, accountType = REVENUE, balance = 0\<rparr>,
                        \<lparr>acc_id = 2, acc_userId = Some 1, accountType = USER_WALLET, balance = 10000\<rparr>,
                        \<lparr>acc_id = 4, acc_userId = Some 3, accountType = INFLUENCER_WALLET, balance = 0\<rparr>],
            transactions = [], entries = [], nextId = 5\<rparr>"
  by (simp add: dbReg_def dbSeed_def register_def atomically_def createAccount_def
      insertUser_def insertAccount_def Let_def)




section \<open>Payments to an influencer\<close>





lemma register_influencer_no_user_wallet:
  assumes fresh: "Some (nextId d) \<notin> set (map acc_userId (accounts d))"
    and reg: "register d mail name INFLUENCER = (Inr uid, d')"
  shows "find (\<lambda>a. acc_userId a = Some uid \<and> accountType a = USER_WALLET) (accounts d') = None"
proof -
  from reg have u: "uid = nextId d"
    and a: "accounts d' = accounts d @
      [\<lparr>acc_id = Suc (nextId d), acc_userId = Some (nextId d),
        accountType = INFLUENCER_WALLET, balance = 0\<rparr>]"
    by (auto simp: register_def atomically_def createAccount_def Let_def split: if_splits)
  show ?thesis
    using fresh unfolding u a by (force simp: find_None_iff image_iff)
qed

section \<open>Solvency checks\<close>

text \<open>
  The message payment and the hold refuse an amount above the payer's balance and
  leave the store as it was (the withdrawal does too, see \<open>Withdrawal\<close> above).
\<close>

lemma message_payment_refused:
  assumes "find (\<lambda>a. acc_userId a = Some senderId \<and> accountType a = USER_WALLET) (accounts d) = Some s"
    and "find (\<lambda>a. acc_userId a = Some receiverId \<and> accountType a = USER_WALLET) (accounts d) \<noteq> None"
    and "find (\<lambda>a. accountType a = REVENUE) (accounts d) \<noteq> None"
    and "balance s < amt"
  shows "processMessagePayment d senderId receiverId amt now rnd = (Inl InsufficientBalance, d)"
  using assms by (auto simp: processMessagePayment_def atomically_def)

lemma hold_refused:
  assumes "getBalance d userId < amt"
  shows "holdFundsForCall d userId amt callId = (Inl InsufficientBalanceForCall, d)"
  using assms
  by (auto simp: holdFundsForCall_def getBalance_def atomically_def split: option.splits)

text \<open>
  C5 at a failing input: the initiator's wallet holds 10000 and the call payment
  is 20000; \<open>processCallPayment\<close> has no balance check, succeeds, and leaves the
  wallet at -10000. The message payment of the same amount is refused.
\<close>

theorem call_payment_overdraws:
  "walletBalance dbA 1 = 10000
   \<and> fst (processCallPayment dbA 1 2 20000 0 ''c1'' ''1752163200000'') = Inr ()
   \<and> walletBalance (snd (processCallPayment dbA 1 2 20000 0 ''c1'' ''1752163200000'')) 1 = - 10000
   \<and> fst (processMessagePayment dbA 1 2 20000 ''1752163200000'' ''k3x9q'') = Inl InsufficientBalance"
  by (simp add: dbA_def processCallPayment_def processMessagePayment_def atomically_def
      createTransaction_def transferBalances_def transferEntries_def decrement_increment
      walletBalance_def bump_def)

section \<open>Resolving a hold\<close>

lemma find_userId_iff:
  "(find (\<lambda>a. acc_userId a = Some u) xs \<noteq> None) = (Some u \<in> set (map acc_userId xs))"
  by (induction xs) auto

lemma bump_absent: "i \<notin> acc_id ` set xs \<Longrightarrow> map (bump i n) xs = xs"
  by (induction xs) (auto simp: bump_def)

lemma owned_sum_bump:
  "distinct (map acc_id xs) \<Longrightarrow> a \<in> set xs \<Longrightarrow>
     sum_list (map balance (filter (\<lambda>x. acc_userId x = Some u) (map (bump (acc_id a) n) xs)))
       = sum_list (map balance (filter (\<lambda>x. acc_userId x = Some u) xs))
         + (if acc_userId a = Some u then n else 0)"
proof (induction xs)
  case Nil
  then show ?case by simp
next
  case (Cons x xs)
  show ?case
  proof (cases "x = a")
    case True
    then have "acc_id a \<notin> acc_id ` set xs"
      using Cons.prems(1) by simp
    then have rest: "map (bump (acc_id a) n) xs = xs"
      by (rule bump_absent)
    show ?thesis
      unfolding True list.map rest by simp
  next
    case False
    then have a: "a \<in> set xs"
      using Cons.prems(2) by simp
    then have "acc_id x \<noteq> acc_id a"
      using Cons.prems(1) by auto
    then have head: "bump (acc_id a) n x = x"
      by (simp add: bump_def)
    have "distinct (map acc_id xs)"
      using Cons.prems(1) by simp
    from Cons.IH [OF this a] show ?thesis
      unfolding list.map head by simp
  qed
qed

lemma ownedTotal_increment:
  assumes "distinct (map acc_id (accounts d))" and "a \<in> set (accounts d)"
  shows "ownedTotal (increment (acc_id a) n d) u =
           ownedTotal d u + (if acc_userId a = Some u then n else 0)"
  using owned_sum_bump [OF assms] by (simp add: ownedTotal_def)

lemma ownedTotal_insertTransaction [simp]:
  "ownedTotal (insertTransaction t d) u = ownedTotal d u"
  by (simp add: ownedTotal_def)

lemma ownedTotal_single:
  "filter (\<lambda>a. acc_userId a = Some u) (accounts d) = [a] \<Longrightarrow> getBalance d u = ownedTotal d u"
proof -
  assume f: "filter (\<lambda>a. acc_userId a = Some u) (accounts d) = [a]"
  have "find P xs = (case filter P xs of [] \<Rightarrow> None | x # _ \<Rightarrow> Some x)" for P and xs :: "account list"
    by (induction xs) simp_all
  then show ?thesis
    using f by (simp add: getBalance_def ownedTotal_def)
qed

lemma settle_step:
  assumes ids: "distinct (map acc_id (accounts d))"
    and r: "find (\<lambda>a. acc_userId a = Some receiverId) (accounts d) \<noteq> None"
    and t: "t = \<lparr>tx_id = nextId d, idempotencyKey = None, tx_type = CALL_PAYMENT,
                 tx_status = COMPLETED, referenceId = Some callId, tx_userId = Some callerId,
                 tx_amount = actualCharge dur ty\<rparr>"
  shows "\<exists>d'. settleCallCharges d callId dur ty callerId receiverId = (Inr t, d')
           \<and> transactions d' = transactions d @ [t]
           \<and> entries d' = entries d
           \<and> nextId d' = Suc (nextId d)
           \<and> map acc_id (accounts d') = map acc_id (accounts d)
           \<and> map acc_userId (accounts d') = map acc_userId (accounts d)
           \<and> ownedTotal d' receiverId = ownedTotal d receiverId + actualCharge dur ty"
proof -
  from r obtain a where a: "find (\<lambda>a. acc_userId a = Some receiverId) (accounts d) = Some a"
    by auto
  have res: "settleCallCharges d callId dur ty callerId receiverId =
               (Inr t, increment (acc_id a) (actualCharge dur ty) (insertTransaction t d))"
    using a unfolding t
    by (simp add: settleCallCharges_def atomically_def createTransaction_def
        del: actualCharge_div)
  have ain: "a \<in> set (accounts (insertTransaction t d))" "acc_userId a = Some receiverId"
    using find_in_set [OF a] by simp_all
  have ids': "distinct (map acc_id (accounts (insertTransaction t d)))"
    using ids by simp
  have "ownedTotal (increment (acc_id a) (actualCharge dur ty) (insertTransaction t d)) receiverId
          = ownedTotal d receiverId + actualCharge dur ty"
    using ownedTotal_increment [OF ids' ain(1), of "actualCharge dur ty" receiverId] ain(2)
    by (simp del: actualCharge_div)
  then show ?thesis
    unfolding res by (simp add: comp_def del: actualCharge_div)
qed

lemma refund_step:
  assumes ids: "distinct (map acc_id (accounts d))"
    and u: "find (\<lambda>a. acc_userId a = Some userId) (accounts d) \<noteq> None"
    and t: "t = \<lparr>tx_id = nextId d, idempotencyKey = None, tx_type = REFUND,
                 tx_status = COMPLETED, referenceId = Some callId, tx_userId = Some userId,
                 tx_amount = amt\<rparr>"
  shows "\<exists>d'. refundHeldFunds d callId userId amt = (Inr t, d')
           \<and> transactions d' = transactions d @ [t]
           \<and> entries d' = entries d
           \<and> nextId d' = Suc (nextId d)
           \<and> map acc_id (accounts d') = map acc_id (accounts d)
           \<and> map acc_userId (accounts d') = map acc_userId (accounts d)
           \<and> ownedTotal d' userId = ownedTotal d userId + amt"
proof -
  from u obtain a where a: "find (\<lambda>a. acc_userId a = Some userId) (accounts d) = Some a"
    by auto
  have res: "refundHeldFunds d callId userId amt =
               (Inr t, increment (acc_id a) amt (insertTransaction t d))"
    using a unfolding t
    by (simp add: refundHeldFunds_def atomically_def createTransaction_def)
  have ain: "a \<in> set (accounts (insertTransaction t d))" "acc_userId a = Some userId"
    using find_in_set [OF a] by simp_all
  have ids': "distinct (map acc_id (accounts (insertTransaction t d)))"
    using ids by simp
  have "ownedTotal (increment (acc_id a) amt (insertTransaction t d)) userId
          = ownedTotal d userId + amt"
    using ownedTotal_increment [OF ids' ain(1), of amt userId] ain(2) by simp
  then show ?thesis
    unfolding res by (simp add: comp_def)
qed

text \<open>
  Counterexample to C4 as stated: the call \<open>c1\<close> has a hold, and its settlement
  succeeds twice in a row, crediting the receiver 700 each time; a refund for
  the same call after the settlement succeeds as well and credits the caller;
  the hold transaction stays HELD throughout. A settlement also succeeds in
  \<open>dbA\<close>, where no hold exists at all.
\<close>

theorem hold_resolved_twice:
  "\<not> isl (fst (settleCallCharges dbH ''c1'' 61 VOICE 1 2))
   \<and> getBalance dbH 2 = 0 \<and> getBalance dbSettled 2 = 700
   \<and> \<not> isl (fst (settleCallCharges dbSettled ''c1'' 61 VOICE 1 2))
   \<and> getBalance (snd (settleCallCharges dbSettled ''c1'' 61 VOICE 1 2)) 2 = 1400
   \<and> getBalance dbSettled 1 = 9300
   \<and> \<not> isl (fst (refundHeldFunds dbSettled ''c1'' 1 700))
   \<and> getBalance (snd (refundHeldFunds dbSettled ''c1'' 1 700)) 1 = 10000
   \<and> map tx_status (transactions (snd (refundHeldFunds dbSettled ''c1'' 1 700)))
        = [HELD, COMPLETED, COMPLETED]
   \<and> transactions dbA = [] \<and> \<not> isl (fst (settleCallCharges dbA ''c1'' 61 VOICE 1 2))"
  by (simp add: dbSettled_def dbH_def dbA_def holdFundsForCall_def settleCallCharges_def
      refundHeldFunds_def atomically_def createTransaction_def decrement_increment
      getBalance_def bump_def settleRatePerMinute_def)

text \<open>
  C4 (amended). Settlement and refund never look for a HELD transaction: with
  unique account ids, a settlement succeeds whenever the receiver has an account
  and a refund whenever the user has one, also when no hold exists and when the
  same call id was settled or refunded before. Each call that succeeds appends
  a new COMPLETED transaction for the call id (CALL_PAYMENT for a settlement,
  REFUND for a refund), writes no entry, leaves every earlier transaction as it
  was, so that a HELD transaction stays HELD, and credits one of the party's
  accounts again: the total over the receiver's accounts grows by the charge,
  the total over the user's accounts by the refund amount.
\<close>

theorem settle_refund_repeatable:
  assumes ids: "distinct (map acc_id (accounts d))"
    and r: "find (\<lambda>a. acc_userId a = Some receiverId) (accounts d) \<noteq> None"
    and u: "find (\<lambda>a. acc_userId a = Some userId) (accounts d) \<noteq> None"
  shows "\<exists>t1 d1 t2 d2 t3 d3 t4 d4.
      settleCallCharges d callId dur ty userId receiverId = (Inr t1, d1)
    \<and> settleCallCharges d1 callId dur ty userId receiverId = (Inr t2, d2)
    \<and> refundHeldFunds d2 callId userId amt = (Inr t3, d3)
    \<and> refundHeldFunds d3 callId userId amt = (Inr t4, d4)
    \<and> transactions d4 = transactions d @ [t1, t2, t3, t4]
    \<and> map tx_id [t1, t2, t3, t4]
         = [nextId d, Suc (nextId d), Suc (Suc (nextId d)), Suc (Suc (Suc (nextId d)))]
    \<and> map tx_type [t1, t2, t3, t4] = [CALL_PAYMENT, CALL_PAYMENT, REFUND, REFUND]
    \<and> map tx_status [t1, t2, t3, t4] = [COMPLETED, COMPLETED, COMPLETED, COMPLETED]
    \<and> map referenceId [t1, t2, t3, t4]
         = [Some callId, Some callId, Some callId, Some callId]
    \<and> map tx_amount [t1, t2, t3, t4]
         = [actualCharge dur ty, actualCharge dur ty, amt, amt]
    \<and> filter (\<lambda>t. tx_status t = HELD) (transactions d4)
         = filter (\<lambda>t. tx_status t = HELD) (transactions d)
    \<and> entries d4 = entries d
    \<and> ownedTotal d1 receiverId = ownedTotal d receiverId + actualCharge dur ty
    \<and> ownedTotal d2 receiverId = ownedTotal d1 receiverId + actualCharge dur ty
    \<and> ownedTotal d3 userId = ownedTotal d2 userId + amt
    \<and> ownedTotal d4 userId = ownedTotal d3 userId + amt"
proof -
  let ?t1 = "\<lparr>tx_id = nextId d, idempotencyKey = None, tx_type = CALL_PAYMENT,
              tx_status = COMPLETED, referenceId = Some callId, tx_userId = Some userId,
              tx_amount = actualCharge dur ty\<rparr>"
  obtain d1 where s1: "settleCallCharges d callId dur ty userId receiverId = (Inr ?t1, d1)"
    and x1: "transactions d1 = transactions d @ [?t1]" "entries d1 = entries d"
      "nextId d1 = Suc (nextId d)"
    and i1: "map acc_id (accounts d1) = map acc_id (accounts d)"
    and m1: "map acc_userId (accounts d1) = map acc_userId (accounts d)"
    and b1: "ownedTotal d1 receiverId = ownedTotal d receiverId + actualCharge dur ty"
    using settle_step [OF ids r refl, where callId = callId and callerId = userId and dur = dur and ty = ty] by blast
  let ?t2 = "\<lparr>tx_id = nextId d1, idempotencyKey = None, tx_type = CALL_PAYMENT,
              tx_status = COMPLETED, referenceId = Some callId, tx_userId = Some userId,
              tx_amount = actualCharge dur ty\<rparr>"
  have ids1: "distinct (map acc_id (accounts d1))"
    using ids by (simp only: i1)
  have r1: "find (\<lambda>a. acc_userId a = Some receiverId) (accounts d1) \<noteq> None"
    using r by (simp only: find_userId_iff m1)
  obtain d2 where s2: "settleCallCharges d1 callId dur ty userId receiverId = (Inr ?t2, d2)"
    and x2: "transactions d2 = transactions d1 @ [?t2]" "entries d2 = entries d1"
      "nextId d2 = Suc (nextId d1)"
    and i2: "map acc_id (accounts d2) = map acc_id (accounts d1)"
    and m2: "map acc_userId (accounts d2) = map acc_userId (accounts d1)"
    and b2: "ownedTotal d2 receiverId = ownedTotal d1 receiverId + actualCharge dur ty"
    using settle_step [OF ids1 r1 refl, where callId = callId and callerId = userId and dur = dur and ty = ty] by blast
  let ?t3 = "\<lparr>tx_id = nextId d2, idempotencyKey = None, tx_type = REFUND,
              tx_status = COMPLETED, referenceId = Some callId, tx_userId = Some userId,
              tx_amount = amt\<rparr>"
  have ids2: "distinct (map acc_id (accounts d2))"
    using ids1 by (simp only: i2)
  have u2: "find (\<lambda>a. acc_userId a = Some userId) (accounts d2) \<noteq> None"
    using u by (simp only: find_userId_iff m1 m2)
  obtain d3 where s3: "refundHeldFunds d2 callId userId amt = (Inr ?t3, d3)"
    and x3: "transactions d3 = transactions d2 @ [?t3]" "entries d3 = entries d2"
      "nextId d3 = Suc (nextId d2)"
    and i3: "map acc_id (accounts d3) = map acc_id (accounts d2)"
    and m3: "map acc_userId (accounts d3) = map acc_userId (accounts d2)"
    and b3: "ownedTotal d3 userId = ownedTotal d2 userId + amt"
    using refund_step [OF ids2 u2 refl, where callId = callId and amt = amt] by blast
  let ?t4 = "\<lparr>tx_id = nextId d3, idempotencyKey = None, tx_type = REFUND,
              tx_status = COMPLETED, referenceId = Some callId, tx_userId = Some userId,
              tx_amount = amt\<rparr>"
  have ids3: "distinct (map acc_id (accounts d3))"
    using ids2 by (simp only: i3)
  have u3: "find (\<lambda>a. acc_userId a = Some userId) (accounts d3) \<noteq> None"
    using u2 by (simp only: find_userId_iff m3)
  obtain d4 where s4: "refundHeldFunds d3 callId userId amt = (Inr ?t4, d4)"
    and x4: "transactions d4 = transactions d3 @ [?t4]" "entries d4 = entries d3"
    and b4: "ownedTotal d4 userId = ownedTotal d3 userId + amt"
    using refund_step [OF ids3 u3 refl, where callId = callId and amt = amt] by blast
  have rows: "transactions d4 = transactions d @ [?t1, ?t2, ?t3, ?t4]" "entries d4 = entries d"
    by (simp_all add: x1 x2 x3 x4)
  have held: "filter (\<lambda>t. tx_status t = HELD) (transactions d4)
                = filter (\<lambda>t. tx_status t = HELD) (transactions d)"
    by (simp add: rows)
  have fields: "map tx_id [?t1, ?t2, ?t3, ?t4]
         = [nextId d, Suc (nextId d), Suc (Suc (nextId d)), Suc (Suc (Suc (nextId d)))]"
    "map tx_type [?t1, ?t2, ?t3, ?t4] = [CALL_PAYMENT, CALL_PAYMENT, REFUND, REFUND]"
    "map tx_status [?t1, ?t2, ?t3, ?t4] = [COMPLETED, COMPLETED, COMPLETED, COMPLETED]"
    "map referenceId [?t1, ?t2, ?t3, ?t4] = [Some callId, Some callId, Some callId, Some callId]"
    "map tx_amount [?t1, ?t2, ?t3, ?t4] = [actualCharge dur ty, actualCharge dur ty, amt, amt]"
    by (simp_all add: x1 x2 x3 del: actualCharge_div)
  show ?thesis
    by (intro exI conjI) (rule s1 s2 s3 s4 rows held fields b1 b2 b3 b4)+
qed

theorem settle_refund_repeatable_witness:
  "\<exists>t1 d1 t2 d2 t3 d3 t4 d4.
      settleCallCharges dbH ''c1'' 61 VOICE 1 2 = (Inr t1, d1)
    \<and> settleCallCharges d1 ''c1'' 61 VOICE 1 2 = (Inr t2, d2)
    \<and> refundHeldFunds d2 ''c1'' 1 700 = (Inr t3, d3)
    \<and> refundHeldFunds d3 ''c1'' 1 700 = (Inr t4, d4)
    \<and> map tx_id (transactions d4) = [5, 6, 7, 8, 9]
    \<and> map tx_status (transactions d4) = [HELD, COMPLETED, COMPLETED, COMPLETED, COMPLETED]
    \<and> map tx_id (filter (\<lambda>t. tx_status t = HELD) (transactions d4)) = [5]
    \<and> entries d4 = []
    \<and> ownedTotal d2 2 = 1400 \<and> ownedTotal d4 1 = ownedTotal d2 1 + 1400"
proof -
  have e: "dbH = \<lparr>users = users dbA,
      accounts = [\<lparr>acc_id = 0, acc_userId = None, accountType = REVENUE, balance = 0\<rparr>,
                  \<lparr>acc_id = 3, acc_userId = Some 1, accountType = USER_WALLET, balance = 9300\<rparr>,
                  \<lparr>acc_id = 4, acc_userId = Some 2, accountType = USER_WALLET, balance = 0\<rparr>],
      transactions = [\<lparr>tx_id = 5, idempotencyKey = None, tx_type = HOLD_FUNDS,
                       tx_status = HELD, referenceId = Some ''c1'', tx_userId = Some 1,
                       tx_amount = 700\<rparr>],
      entries = [], nextId = 6\<rparr>"
    by (simp add: dbH_def dbA_def holdFundsForCall_def atomically_def createTransaction_def
        insertTransaction_def decrement_def)
  have h: "distinct (map acc_id (accounts dbH))"
    "find (\<lambda>a. acc_userId a = Some 2) (accounts dbH) \<noteq> None"
    "find (\<lambda>a. acc_userId a = Some 1) (accounts dbH) \<noteq> None"
    and v: "ownedTotal dbH 2 = 0" "nextId dbH = 6" "entries dbH = []"
      "map tx_id (transactions dbH) = [5]" "map tx_status (transactions dbH) = [HELD]"
      "map tx_id (filter (\<lambda>t. tx_status t = HELD) (transactions dbH)) = [5]"
    by (simp_all add: e ownedTotal_def)
  from settle_refund_repeatable [OF h(1) h(2) h(3), where callId = "''c1''" and dur = 61
      and ty = VOICE and amt = 700]
  obtain t1 d1 t2 d2 t3 d3 t4 d4 where
    "settleCallCharges dbH ''c1'' 61 VOICE 1 2 = (Inr t1, d1)"
    "settleCallCharges d1 ''c1'' 61 VOICE 1 2 = (Inr t2, d2)"
    "refundHeldFunds d2 ''c1'' 1 700 = (Inr t3, d3)"
    "refundHeldFunds d3 ''c1'' 1 700 = (Inr t4, d4)"
    "transactions d4 = transactions dbH @ [t1, t2, t3, t4]"
    "map tx_id [t1, t2, t3, t4]
       = [nextId dbH, Suc (nextId dbH), Suc (Suc (nextId dbH)), Suc (Suc (Suc (nextId dbH)))]"
    "map tx_status [t1, t2, t3, t4] = [COMPLETED, COMPLETED, COMPLETED, COMPLETED]"
    "filter (\<lambda>t. tx_status t = HELD) (transactions d4)
       = filter (\<lambda>t. tx_status t = HELD) (transactions dbH)"
    "entries d4 = entries dbH"
    "ownedTotal d1 2 = ownedTotal dbH 2 + actualCharge 61 VOICE"
    "ownedTotal d2 2 = ownedTotal d1 2 + actualCharge 61 VOICE"
    "ownedTotal d3 1 = ownedTotal d2 1 + 700"
    "ownedTotal d4 1 = ownedTotal d3 1 + 700"
    by (elim exE conjE) (rule that; assumption)
  then show ?thesis
    using v by (auto simp: settleRatePerMinute_def)
qed

section \<open>Top-up\<close>

lemma find_append_new:
  "find P xs = None \<Longrightarrow> P a \<Longrightarrow> find P (xs @ [a]) = Some a"
  by (induction xs) (auto split: if_splits)

lemma walletBalance_increment_found:
  assumes "find (\<lambda>a. acc_userId a = Some u \<and> accountType a = USER_WALLET) (accounts d) = Some a"
  shows "walletBalance (increment (acc_id a) n d) u = balance a + n"
proof -
  have "find (\<lambda>a. acc_userId a = Some u \<and> accountType a = USER_WALLET)
            (map (bump (acc_id a) n) (accounts d))
          = map_option (bump (acc_id a) n)
              (find (\<lambda>a. acc_userId a = Some u \<and> accountType a = USER_WALLET) (accounts d))"
    by (rule find_map_stable) simp
  then show ?thesis
    using assms by (simp add: walletBalance_def)
qed

lemma addMoneyToWallet_step:
  "\<exists>d'. addMoneyToWallet d userId amt txId = (Inr (), d')
      \<and> walletBalance d' userId = walletBalance d userId + amt
      \<and> transactions d' = transactions d
      \<and> nextId d \<le> nextId d'"
proof (cases "find (\<lambda>a. acc_userId a = Some userId \<and> accountType a = USER_WALLET) (accounts d)")
  case None
  let ?a = "\<lparr>acc_id = nextId d, acc_userId = Some userId, accountType = USER_WALLET, balance = 0\<rparr>"
  let ?e = "\<lparr>transactionId = txId, accountId = nextId d, amount = amt, direction = CREDIT\<rparr>"
  have f: "find (\<lambda>a. acc_userId a = Some userId \<and> accountType a = USER_WALLET)
             (accounts (createEntry ?e (insertAccount ?a d))) = Some ?a"
    using None by (simp add: find_append_new)
  have w0: "walletBalance d userId = 0"
    using None by (simp add: walletBalance_def)
  have r: "addMoneyToWallet d userId amt txId =
             (Inr (), increment (acc_id ?a) amt (createEntry ?e (insertAccount ?a d)))"
    using None by (simp add: addMoneyToWallet_def atomically_def createAccount_def Let_def)
  have "walletBalance (increment (acc_id ?a) amt (createEntry ?e (insertAccount ?a d))) userId
          = walletBalance d userId + amt"
    using walletBalance_increment_found [OF f, of amt] w0 by simp
  then show ?thesis
    unfolding r by simp
next
  case (Some a)
  let ?e = "\<lparr>transactionId = txId, accountId = acc_id a, amount = amt, direction = CREDIT\<rparr>"
  have f: "find (\<lambda>a. acc_userId a = Some userId \<and> accountType a = USER_WALLET)
             (accounts (createEntry ?e d)) = Some a"
    using Some by simp
  have w0: "walletBalance d userId = balance a"
    using Some by (simp add: walletBalance_def)
  have r: "addMoneyToWallet d userId amt txId =
             (Inr (), increment (acc_id a) amt (createEntry ?e d))"
    using Some by (simp add: addMoneyToWallet_def atomically_def)
  have "walletBalance (increment (acc_id a) amt (createEntry ?e d)) userId
          = walletBalance d userId + amt"
    using walletBalance_increment_found [OF f, of amt] w0 by simp
  then show ?thesis
    unfolding r by simp
qed

lemma walletBalance_insertTransaction [simp]:
  "walletBalance (insertTransaction t d) u = walletBalance d u"
  by (simp add: walletBalance_def)

lemma processPayment_step:
  assumes "orDefault (MIN_TOPUP_AMOUNT cfg) 10000 \<le> amt"
  shows "\<exists>d'. processPayment cfg d userId amt = (Inr (nextId d), d')
      \<and> transactions d' = transactions d @
           [\<lparr>tx_id = nextId d, idempotencyKey = None, tx_type = TOP_UP, tx_status = COMPLETED,
             referenceId = None, tx_userId = Some userId, tx_amount = amt\<rparr>]
      \<and> walletBalance d' userId = walletBalance d userId + amt
      \<and> nextId d < nextId d'"
proof -
  let ?t = "\<lparr>tx_id = nextId d, idempotencyKey = None, tx_type = TOP_UP, tx_status = COMPLETED,
             referenceId = None, tx_userId = Some userId, tx_amount = amt\<rparr>"
  obtain d' where a: "addMoneyToWallet (insertTransaction ?t d) userId amt (nextId d) = (Inr (), d')"
    and b: "walletBalance d' userId = walletBalance (insertTransaction ?t d) userId + amt"
    and c: "transactions d' = transactions (insertTransaction ?t d)"
    and n: "nextId (insertTransaction ?t d) \<le> nextId d'"
    using addMoneyToWallet_step [of "insertTransaction ?t d" userId amt "nextId d"] by blast
  show ?thesis
    using assms a b c n
    by (simp add: processPayment_def verifyPaymentWithGateway_def createTransaction_def)
qed

text \<open>
  Counterexample to C3 as stated: the same top-up of 10000 is processed twice
  for user 1; both calls succeed, with the transactions 5 and 6, and the wallet
  goes from 10000 to 30000.
\<close>

theorem topup_replayed_twice:
  "fst (processPayment cfg0 dbA 1 10000) = Inr 5
   \<and> fst (processPayment cfg0 dbPaid 1 10000) = Inr 6
   \<and> map tx_id (transactions (snd (processPayment cfg0 dbPaid 1 10000))) = [5, 6]
   \<and> walletBalance dbA 1 = 10000
   \<and> walletBalance (snd (processPayment cfg0 dbPaid 1 10000)) 1 = 30000"
  by (simp add: dbPaid_def dbA_def cfg0_def processPayment_def orDefault_def
      verifyPaymentWithGateway_def createTransaction_def addMoneyToWallet_def atomically_def
      walletBalance_def bump_def)

text \<open>
  C3 (amended). The top-up takes no payment reference and writes its transaction
  without an idempotency key, so a replay is not recognised: calling it twice
  with the same arguments (an amount of at least the configured minimum)
  succeeds twice, creates two transactions with different ids, and credits the
  user's wallet twice.
\<close>

theorem topup_replay_credits_twice:
  assumes "orDefault (MIN_TOPUP_AMOUNT cfg) 10000 \<le> amt"
  shows "\<exists>d1 d2. processPayment cfg d userId amt = (Inr (nextId d), d1)
      \<and> processPayment cfg d1 userId amt = (Inr (nextId d1), d2)
      \<and> nextId d < nextId d1
      \<and> length (transactions d2) = length (transactions d) + 2
      \<and> map idempotencyKey (drop (length (transactions d)) (transactions d2)) = [None, None]
      \<and> walletBalance d2 userId = walletBalance d userId + 2 * amt"
proof -
  obtain d1 where p1: "processPayment cfg d userId amt = (Inr (nextId d), d1)"
    and t1: "transactions d1 = transactions d @
           [\<lparr>tx_id = nextId d, idempotencyKey = None, tx_type = TOP_UP, tx_status = COMPLETED,
             referenceId = None, tx_userId = Some userId, tx_amount = amt\<rparr>]"
    and w1: "walletBalance d1 userId = walletBalance d userId + amt"
    and n1: "nextId d < nextId d1"
    using processPayment_step [OF assms, of d userId] by blast
  obtain d2 where p2: "processPayment cfg d1 userId amt = (Inr (nextId d1), d2)"
    and t2: "transactions d2 = transactions d1 @
           [\<lparr>tx_id = nextId d1, idempotencyKey = None, tx_type = TOP_UP, tx_status = COMPLETED,
             referenceId = None, tx_userId = Some userId, tx_amount = amt\<rparr>]"
    and w2: "walletBalance d2 userId = walletBalance d1 userId + amt"
    using processPayment_step [OF assms, of d1 userId] by blast
  show ?thesis
    using p1 p2 n1 t1 t2 w1 w2 by simp
qed

theorem topup_replay_credits_twice_witness:
  "\<exists>d1 d2. processPayment cfg0 dbA 1 10000 = (Inr 5, d1)
      \<and> processPayment cfg0 d1 1 10000 = (Inr (nextId d1), d2)
      \<and> 5 < nextId d1
      \<and> length (transactions d2) = 2
      \<and> walletBalance d2 1 = 30000"
proof -
  have h: "orDefault (MIN_TOPUP_AMOUNT cfg0) 10000 \<le> 10000"
    by (simp add: cfg0_def orDefault_def)
  have v: "nextId dbA = 5" "transactions dbA = []" "walletBalance dbA 1 = 10000"
    by (simp_all add: dbA_def walletBalance_def)
  show ?thesis
    using topup_replay_credits_twice [OF h, of dbA 1] v by auto
qed

section \<open>The entries of a transaction\<close>

lemma txEntries_old:
  "entriesKnown d \<Longrightarrow> nextId d \<le> n \<Longrightarrow> filter (\<lambda>e. transactionId e = n) (entries d) = []"
  by (auto simp: entriesKnown_def list_all_iff filter_empty_conv)

lemma txEntries_new:
  "entriesKnown d \<Longrightarrow> nextId d \<le> n \<Longrightarrow> entries d' = entries d @ es \<Longrightarrow>
     txEntries d' n = filter (\<lambda>e. transactionId e = n) es"
  by (simp add: txEntries_def txEntries_old)

lemma processMessagePayment_entries:
  assumes "processMessagePayment d senderId receiverId G now rnd = (Inr (), d')"
  shows "\<exists>s r v. entries d' = entries d @
          [\<lparr>transactionId = nextId d, accountId = s, amount = G, direction = DEBIT\<rparr>,
           \<lparr>transactionId = nextId d, accountId = r, amount = receiverAmount G, direction = CREDIT\<rparr>,
           \<lparr>transactionId = nextId d, accountId = v, amount = revenueAmount G, direction = CREDIT\<rparr>]"
  using assms
  by (auto simp: processMessagePayment_def atomically_def createTransaction_def
      transferBalances_def transferEntries_def decrement_increment
      simp del: receiverAmount_div split: option.splits if_splits)

lemma processMessageCharge_entries:
  assumes "processMessageCharge d senderId receiverId messageId = (Inr t, d')"
  shows "tx_id t = nextId d \<and> (\<exists>s r. entries d' = entries d @
          [\<lparr>transactionId = nextId d, accountId = s, amount = MESSAGE_CHARGE, direction = DEBIT\<rparr>,
           \<lparr>transactionId = nextId d, accountId = r, amount = MESSAGE_CHARGE, direction = CREDIT\<rparr>])"
  using assms
  by (auto simp: processMessageCharge_def atomically_def createTransaction_def
      decrement_increment split: option.splits if_splits)

lemma processCallPayment_entries:
  assumes "processCallPayment d initiatorId receiverId G refundAmount callId now = (Inr (), d')"
  shows "\<exists>s r v. entries d' = entries d @
          [\<lparr>transactionId = nextId d, accountId = s, amount = G, direction = DEBIT\<rparr>,
           \<lparr>transactionId = nextId d, accountId = r, amount = receiverAmount G, direction = CREDIT\<rparr>,
           \<lparr>transactionId = nextId d, accountId = v, amount = revenueAmount G, direction = CREDIT\<rparr>]
          @ (if refundAmount > 0
             then [\<lparr>transactionId = Suc (nextId d), accountId = s, amount = refundAmount,
                    direction = CREDIT\<rparr>]
             else [])"
  using assms
  by (auto simp: processCallPayment_def atomically_def createTransaction_def Let_def
      transferBalances_def transferEntries_def decrement_increment
      simp del: receiverAmount_div split: option.splits if_splits)

lemma addMoneyToWallet_entries:
  assumes "addMoneyToWallet d userId amt txId = (r, d')"
  shows "\<exists>i. entries d' = entries d @
          [\<lparr>transactionId = txId, accountId = i, amount = amt, direction = CREDIT\<rparr>]"
  using assms
  by (auto simp: addMoneyToWallet_def atomically_def createAccount_def Let_def
      split: option.splits)

lemma processPayment_entries:
  assumes "processPayment cfg d userId amt = (Inr tid, d')"
  shows "tid = nextId d \<and> (\<exists>i. entries d' = entries d @
          [\<lparr>transactionId = nextId d, accountId = i, amount = amt, direction = CREDIT\<rparr>])"
proof -
  let ?t = "\<lparr>tx_id = nextId d, idempotencyKey = None, tx_type = TOP_UP, tx_status = COMPLETED,
             referenceId = None, tx_userId = Some userId, tx_amount = amt\<rparr>"
  obtain r d1 where a: "addMoneyToWallet (insertTransaction ?t d) userId amt (nextId d) = (r, d1)"
    by (cases "addMoneyToWallet (insertTransaction ?t d) userId amt (nextId d)")
  from addMoneyToWallet_entries [OF a] obtain i where
    e: "entries d1 = entries d @
          [\<lparr>transactionId = nextId d, accountId = i, amount = amt, direction = CREDIT\<rparr>]"
    by auto
  show ?thesis
    using assms a e
    by (auto simp: processPayment_def createTransaction_def split: if_splits sum.splits)
qed

lemma processWithdrawal_entries:
  assumes "processWithdrawal cfg d userId amt = (Inr tid, d')"
  shows "tid = nextId d \<and> (\<exists>i. entries d' = entries d @
          [\<lparr>transactionId = nextId d, accountId = i, amount = amt, direction = DEBIT\<rparr>])"
  using assms
  by (auto simp: processWithdrawal_def createTransaction_def deductMoneyFromWallet_def
      atomically_def decrement_increment split: if_splits option.splits)

text \<open>
  Counterexample to C1 as stated: the top-up of 10000 in \<open>dbA\<close> commits the
  COMPLETED transaction 5, whose entries are one CREDIT of 10000 and no DEBIT.
\<close>

theorem topup_entries_unbalanced:
  "fst (processPayment cfg0 dbA 1 10000) = Inr 5
   \<and> map tx_id (transactions dbPaid) = [5]
   \<and> map tx_status (transactions dbPaid) = [COMPLETED]
   \<and> sumDir CREDIT (txEntries dbPaid 5) = 10000
   \<and> sumDir DEBIT (txEntries dbPaid 5) = 0"
  by (simp add: dbPaid_def dbA_def cfg0_def processPayment_def orDefault_def
      verifyPaymentWithGateway_def createTransaction_def addMoneyToWallet_def atomically_def
      sumDir_def txEntries_def)

text \<open>
  C1 (amended). In a store whose entries name issued ids only: the transaction
  of a message payment, of a message charge, and the call-payment transaction
  of \<open>processCallPayment\<close> have entries whose CREDIT amounts and DEBIT amounts
  both sum to the gross amount; the transaction of a top-up has a single CREDIT
  entry of the amount and no DEBIT; the transaction of a withdrawal has a single
  DEBIT entry of the amount and no CREDIT; the refund transaction of
  \<open>processCallPayment\<close> has a single CREDIT entry of the refund amount and no
  DEBIT.
\<close>

theorem entries_per_transaction:
  assumes k: "entriesKnown d"
  shows "(processMessagePayment d u1 u2 G now rnd = (Inr (), d1) \<longrightarrow>
            sumDir CREDIT (txEntries d1 (nextId d)) = G
          \<and> sumDir DEBIT (txEntries d1 (nextId d)) = G)
       \<and> (processMessageCharge d u1 u2 messageId = (Inr t, d2) \<longrightarrow>
            sumDir CREDIT (txEntries d2 (tx_id t)) = MESSAGE_CHARGE
          \<and> sumDir DEBIT (txEntries d2 (tx_id t)) = MESSAGE_CHARGE)
       \<and> (processCallPayment d u1 u2 G refundAmount callId now = (Inr (), d3) \<longrightarrow>
            sumDir CREDIT (txEntries d3 (nextId d)) = G
          \<and> sumDir DEBIT (txEntries d3 (nextId d)) = G
          \<and> (refundAmount > 0 \<longrightarrow>
                sumDir CREDIT (txEntries d3 (Suc (nextId d))) = refundAmount
              \<and> sumDir DEBIT (txEntries d3 (Suc (nextId d))) = 0))
       \<and> (processPayment cfg d u1 amt = (Inr tid, d4) \<longrightarrow>
            sumDir CREDIT (txEntries d4 tid) = amt \<and> sumDir DEBIT (txEntries d4 tid) = 0)
       \<and> (processWithdrawal cfg d u1 amt = (Inr wid, d5) \<longrightarrow>
            sumDir DEBIT (txEntries d5 wid) = amt \<and> sumDir CREDIT (txEntries d5 wid) = 0)"
proof -
  note new0 = txEntries_new [OF k order_refl]
  have new1: "entries d' = entries d @ es \<Longrightarrow>
      txEntries d' (Suc (nextId d)) = filter (\<lambda>e. transactionId e = Suc (nextId d)) es" for d' es
    by (rule txEntries_new [OF k]) simp_all
  have c1: "sumDir CREDIT (txEntries d1 (nextId d)) = G \<and> sumDir DEBIT (txEntries d1 (nextId d)) = G"
    if "processMessagePayment d u1 u2 G now rnd = (Inr (), d1)"
  proof -
    from processMessagePayment_entries [OF that] obtain s r v where
      "entries d1 = entries d @
          [\<lparr>transactionId = nextId d, accountId = s, amount = G, direction = DEBIT\<rparr>,
           \<lparr>transactionId = nextId d, accountId = r, amount = receiverAmount G, direction = CREDIT\<rparr>,
           \<lparr>transactionId = nextId d, accountId = v, amount = revenueAmount G, direction = CREDIT\<rparr>]"
      by blast
    from new0 [OF this] show ?thesis
      by (simp add: sumDir_def revenueAmount_def)
  qed
  have c2: "sumDir CREDIT (txEntries d2 (tx_id t)) = MESSAGE_CHARGE
          \<and> sumDir DEBIT (txEntries d2 (tx_id t)) = MESSAGE_CHARGE"
    if "processMessageCharge d u1 u2 messageId = (Inr t, d2)"
  proof -
    from processMessageCharge_entries [OF that] obtain s r where t: "tx_id t = nextId d" and
      "entries d2 = entries d @
          [\<lparr>transactionId = nextId d, accountId = s, amount = MESSAGE_CHARGE, direction = DEBIT\<rparr>,
           \<lparr>transactionId = nextId d, accountId = r, amount = MESSAGE_CHARGE, direction = CREDIT\<rparr>]"
      by blast
    from new0 [OF this(2)] show ?thesis
      by (simp add: sumDir_def t)
  qed
  have c3: "sumDir CREDIT (txEntries d3 (nextId d)) = G
          \<and> sumDir DEBIT (txEntries d3 (nextId d)) = G
          \<and> (refundAmount > 0 \<longrightarrow>
                sumDir CREDIT (txEntries d3 (Suc (nextId d))) = refundAmount
              \<and> sumDir DEBIT (txEntries d3 (Suc (nextId d))) = 0)"
    if "processCallPayment d u1 u2 G refundAmount callId now = (Inr (), d3)"
  proof -
    from processCallPayment_entries [OF that] obtain s r v where
      e: "entries d3 = entries d @
          ([\<lparr>transactionId = nextId d, accountId = s, amount = G, direction = DEBIT\<rparr>,
           \<lparr>transactionId = nextId d, accountId = r, amount = receiverAmount G, direction = CREDIT\<rparr>,
           \<lparr>transactionId = nextId d, accountId = v, amount = revenueAmount G, direction = CREDIT\<rparr>]
          @ (if refundAmount > 0
             then [\<lparr>transactionId = Suc (nextId d), accountId = s, amount = refundAmount,
                    direction = CREDIT\<rparr>]
             else []))"
      by auto
    from new0 [OF e] new1 [OF e] show ?thesis
      by (simp add: sumDir_def revenueAmount_def)
  qed
  have c4: "sumDir CREDIT (txEntries d4 tid) = amt \<and> sumDir DEBIT (txEntries d4 tid) = 0"
    if "processPayment cfg d u1 amt = (Inr tid, d4)"
  proof -
    from processPayment_entries [OF that] obtain i where t: "tid = nextId d" and
      "entries d4 = entries d @
          [\<lparr>transactionId = nextId d, accountId = i, amount = amt, direction = CREDIT\<rparr>]"
      by blast
    from new0 [OF this(2)] show ?thesis
      by (simp add: sumDir_def t)
  qed
  have c5: "sumDir DEBIT (txEntries d5 wid) = amt \<and> sumDir CREDIT (txEntries d5 wid) = 0"
    if "processWithdrawal cfg d u1 amt = (Inr wid, d5)"
  proof -
    from processWithdrawal_entries [OF that] obtain i where t: "wid = nextId d" and
      "entries d5 = entries d @
          [\<lparr>transactionId = nextId d, accountId = i, amount = amt, direction = DEBIT\<rparr>]"
      by blast
    from new0 [OF this(2)] show ?thesis
      by (simp add: sumDir_def t)
  qed
  show ?thesis
    using c1 c2 c3 c4 c5 by blast
qed

theorem entries_per_transaction_witness:
  "entriesKnown dbA
   \<and> fst (processMessagePayment dbA 1 2 100 ''1752163200000'' ''k3x9q'') = Inr ()
   \<and> sumDir CREDIT (txEntries (snd (processMessagePayment dbA 1 2 100 ''1752163200000'' ''k3x9q'')) 5) = 100
   \<and> sumDir DEBIT (txEntries (snd (processMessagePayment dbA 1 2 100 ''1752163200000'' ''k3x9q'')) 5) = 100
   \<and> map_sum id tx_id (fst (processMessageCharge dbA 1 2 ''m1'')) = Inr 5
   \<and> sumDir CREDIT (txEntries (snd (processMessageCharge dbA 1 2 ''m1'')) 5) = 100
   \<and> fst (processCallPayment dbA 1 2 700 50 ''c1'' ''1752163200000'') = Inr ()
   \<and> sumDir DEBIT (txEntries (snd (processCallPayment dbA 1 2 700 50 ''c1'' ''1752163200000'')) 5) = 700
   \<and> sumDir CREDIT (txEntries (snd (processCallPayment dbA 1 2 700 50 ''c1'' ''1752163200000'')) 6) = 50
   \<and> sumDir DEBIT (txEntries (snd (processCallPayment dbA 1 2 700 50 ''c1'' ''1752163200000'')) 6) = 0
   \<and> fst (processPayment cfgLow dbA 1 10000) = Inr 5
   \<and> sumDir CREDIT (txEntries (snd (processPayment cfgLow dbA 1 10000)) 5) = 10000
   \<and> sumDir DEBIT (txEntries (snd (processPayment cfgLow dbA 1 10000)) 5) = 0
   \<and> fst (processWithdrawal cfgLow dbA 1 10000) = Inr 5
   \<and> sumDir DEBIT (txEntries (snd (processWithdrawal cfgLow dbA 1 10000)) 5) = 10000
   \<and> sumDir CREDIT (txEntries (snd (processWithdrawal cfgLow dbA 1 10000)) 5) = 0"
proof -
  let ?p1 = "processMessagePayment dbA 1 2 100 ''1752163200000'' ''k3x9q''"
  let ?p2 = "processMessageCharge dbA 1 2 ''m1''"
  let ?p3 = "processCallPayment dbA 1 2 700 50 ''c1'' ''1752163200000''"
  let ?p4 = "processPayment cfgLow dbA 1 10000"
  let ?p5 = "processWithdrawal cfgLow dbA 1 10000"
  let ?t = "\<lparr>tx_id = 5, idempotencyKey = None, tx_type = CHAT_PAYMENT, tx_status = COMPLETED,
             referenceId = Some ''m1'', tx_userId = Some 1, tx_amount = 100\<rparr>"
  have k: "entriesKnown dbA" and n: "nextId dbA = 5"
    by (simp_all add: entriesKnown_def dbA_def)
  have f1: "fst ?p1 = Inr ()"
    by (simp add: dbA_def processMessagePayment_def atomically_def createTransaction_def)
  have f2: "fst ?p2 = Inr ?t"
    by (simp add: dbA_def processMessageCharge_def atomically_def createTransaction_def
        MESSAGE_CHARGE_def)
  have f3: "fst ?p3 = Inr ()"
    by (simp add: dbA_def processCallPayment_def atomically_def createTransaction_def
        transferBalances_def transferEntries_def decrement_increment Let_def)
  have f4: "fst ?p4 = Inr 5"
    by (simp add: dbA_def cfgLow_def cfg0_def processPayment_def orDefault_def
        verifyPaymentWithGateway_def createTransaction_def addMoneyToWallet_def atomically_def)
  have f5: "fst ?p5 = Inr 5"
    by (simp add: dbA_def cfgLow_def cfg0_def processWithdrawal_def orDefault_def
        getBalance_def createTransaction_def deductMoneyFromWallet_def atomically_def)
  have e1: "?p1 = (Inr (), snd ?p1)" using f1 by (simp add: prod_eq_iff)
  have e2: "?p2 = (Inr ?t, snd ?p2)" using f2 by (simp add: prod_eq_iff)
  have e3: "?p3 = (Inr (), snd ?p3)" using f3 by (simp add: prod_eq_iff)
  have e4: "?p4 = (Inr 5, snd ?p4)" using f4 by (simp add: prod_eq_iff)
  have e5: "?p5 = (Inr 5, snd ?p5)" using f5 by (simp add: prod_eq_iff)
  note T = entries_per_transaction [OF k, where ?u1.0 = 1 and ?u2.0 = 2 and cfg = cfgLow
      and amt = 10000 and ?d4.0 = "snd ?p4" and tid = 5 and ?d5.0 = "snd ?p5" and wid = 5]
  have r1: "sumDir CREDIT (txEntries (snd ?p1) (nextId dbA)) = 100
          \<and> sumDir DEBIT (txEntries (snd ?p1) (nextId dbA)) = 100"
    using T [where G = 100 and now = "''1752163200000''" and rnd = "''k3x9q''"
        and ?d1.0 = "snd ?p1"] e1 by blast
  have r2: "sumDir CREDIT (txEntries (snd ?p2) (tx_id ?t)) = MESSAGE_CHARGE"
    using T [where messageId = "''m1''" and t = ?t and ?d2.0 = "snd ?p2"] e2 by blast
  have r3: "sumDir DEBIT (txEntries (snd ?p3) (nextId dbA)) = 700
          \<and> sumDir CREDIT (txEntries (snd ?p3) (Suc (nextId dbA))) = 50
          \<and> sumDir DEBIT (txEntries (snd ?p3) (Suc (nextId dbA))) = 0"
    using T [where G = 700 and refundAmount = 50 and callId = "''c1''"
        and now = "''1752163200000''" and ?d3.0 = "snd ?p3"] e3 by simp
  have r4: "sumDir CREDIT (txEntries (snd ?p4) 5) = 10000 \<and> sumDir DEBIT (txEntries (snd ?p4) 5) = 0"
    using T e4 by blast
  have r5: "sumDir DEBIT (txEntries (snd ?p5) 5) = 10000 \<and> sumDir CREDIT (txEntries (snd ?p5) 5) = 0"
    using T e5 by blast
  show ?thesis
    using k f1 f2 f3 f4 f5 r1 r2 r3 r4 r5 by (simp add: n MESSAGE_CHARGE_def)
qed

section \<open>Balance-entry consistency\<close>

lemma post_fields [simp]:
  "users (post e d) = users d"
  "accounts (post e d) =
     map (bump (accountId e) (if direction e = CREDIT then amount e else - amount e)) (accounts d)"
  "transactions (post e d) = transactions d"
  "entries (post e d) = entries d @ [e]"
  "nextId (post e d) = nextId d"
  by (simp_all add: post_def)

lemma net_post:
  "net (post e d) j =
     net d j + (if accountId e = j then (if direction e = CREDIT then amount e else - amount e) else 0)"
  by (cases "direction e") (simp_all add: net_def accEntries_def sumDir_def)

lemma net_same_entries: "entries d' = entries d \<Longrightarrow> net d' j = net d j"
  by (simp add: net_def accEntries_def)

lemma net_unused:
  "list_all (\<lambda>e. accountId e < n) (entries d) \<Longrightarrow> n \<le> j \<Longrightarrow> net d j = 0"
proof -
  assume "list_all (\<lambda>e. accountId e < n) (entries d)" and "n \<le> j"
  then have "filter (\<lambda>e. accountId e = j) (entries d) = []"
    by (auto simp: list_all_iff filter_empty_conv)
  then show ?thesis
    by (simp add: net_def accEntries_def sumDir_def)
qed

lemma transfer_posts:
  "transferBalances s r v G (transferEntries t s r v G d) =
     post \<lparr>transactionId = tx_id t, accountId = acc_id v, amount = revenueAmount G, direction = CREDIT\<rparr>
      (post \<lparr>transactionId = tx_id t, accountId = acc_id r, amount = receiverAmount G, direction = CREDIT\<rparr>
        (post \<lparr>transactionId = tx_id t, accountId = acc_id s, amount = G, direction = DEBIT\<rparr> d))"
  by (simp add: transferBalances_def transferEntries_def post_def increment_def decrement_def
      createEntry_def bump_def)

lemma transfer_fields [simp]:
  "nextId (transferBalances s r v G d) = nextId d"
  "transactions (transferBalances s r v G d) = transactions d"
  "nextId (transferEntries t s r v G d) = nextId d"
  "transactions (transferEntries t s r v G d) = transactions d"
  by (simp_all add: transferBalances_def transferEntries_def)

lemma gaps_post [simp]: "gaps (post e d) = gaps d"
  by (auto simp: gaps_def gap_def net_post)

lemma gaps_same:
  "accounts d' = accounts d \<Longrightarrow> entries d' = entries d \<Longrightarrow> gaps d' = gaps d"
  by (simp add: gaps_def gap_def net_def accEntries_def)

lemma found_issued:
  "issued d \<Longrightarrow> find P (accounts d) = Some a \<Longrightarrow> acc_id a < nextId d"
  by (auto simp: issued_def list_all_iff dest: find_in_set)

lemma keepsGaps_issued: "keepsGaps d d' \<Longrightarrow> issued d'"
  by (simp add: keepsGaps_def)

lemma keepsGaps_refl: "issued d \<Longrightarrow> keepsGaps d d"
  by (simp add: keepsGaps_def)

lemma keepsGaps_trans:
  assumes "keepsGaps d d1" and "keepsGaps d1 d2"
  shows "keepsGaps d d2"
proof -
  let ?n = "length (accounts d)" and ?n1 = "length (accounts d1)" and ?n2 = "length (accounts d2)"
  have l: "?n \<le> ?n1" "?n1 \<le> ?n2"
    using assms by (simp_all add: keepsGaps_def)
  then have "?n2 - ?n = (?n1 - ?n) + (?n2 - ?n1)"
    by simp
  then have "replicate (?n2 - ?n) (0::int) = replicate (?n1 - ?n) 0 @ replicate (?n2 - ?n1) 0"
    by (simp only: replicate_add)
  then show ?thesis
    using assms l by (simp add: keepsGaps_def)
qed

lemma keepsGaps_post:
  assumes "keepsGaps d d1" and "accountId e < nextId d1"
  shows "keepsGaps d (post e d1)"
  using assms by (auto simp: keepsGaps_def issued_def list_all_iff)

lemma keepsGaps_insertTransaction:
  assumes "keepsGaps d d1"
  shows "keepsGaps d (insertTransaction t d1)"
proof -
  have "gaps (insertTransaction t d1) = gaps d1"
    by (rule gaps_same) simp_all
  then show ?thesis
    using assms by (auto simp: keepsGaps_def issued_def list_all_iff)
qed

lemma keepsGaps_updateStatus:
  assumes "keepsGaps d d1"
  shows "keepsGaps d (updateStatus i st d1)"
proof -
  have "gaps (updateStatus i st d1) = gaps d1"
    by (rule gaps_same) simp_all
  then show ?thesis
    using assms by (auto simp: keepsGaps_def issued_def list_all_iff)
qed

lemma gaps_insertAccount:
  assumes "issued d"
  shows "gaps (insertAccount \<lparr>acc_id = nextId d, acc_userId = u, accountType = ty, balance = b\<rparr> d)
           = gaps d @ [b]"
proof -
  let ?d' = "insertAccount \<lparr>acc_id = nextId d, acc_userId = u, accountType = ty, balance = b\<rparr> d"
  have n: "net ?d' j = net d j" for j
    by (rule net_same_entries) simp
  have "net d (nextId d) = 0"
    using assms by (auto simp: issued_def intro: net_unused)
  then show ?thesis
    by (simp add: gaps_def gap_def n)
qed

lemma keepsGaps_insertAccount:
  assumes "keepsGaps d d1"
  shows "keepsGaps d
           (insertAccount \<lparr>acc_id = nextId d1, acc_userId = u, accountType = ty, balance = 0\<rparr> d1)"
proof -
  let ?n = "length (accounts d)" and ?n1 = "length (accounts d1)"
  have i: "issued d1" and l: "?n \<le> ?n1"
    and g: "gaps d1 = gaps d @ replicate (?n1 - ?n) 0"
    using assms by (simp_all add: keepsGaps_def)
  have "replicate (Suc ?n1 - ?n) (0::int) = replicate (?n1 - ?n) 0 @ [0]"
    using l by (simp add: Suc_diff_le replicate_append_same)
  then show ?thesis
    using i l g gaps_insertAccount [OF i, of u ty 0]
    by (auto simp: keepsGaps_def issued_def list_all_iff)
qed

lemma keepsGaps_transfer:
  assumes "keepsGaps d0 d" "acc_id s < nextId d" "acc_id r < nextId d" "acc_id v < nextId d"
  shows "keepsGaps d0 (transferBalances s r v G (transferEntries t s r v G d))"
  unfolding transfer_posts
  using assms by (intro keepsGaps_post) simp_all

lemma keepsGaps_processMessagePayment:
  assumes i: "issued d"
  shows "keepsGaps d (snd (processMessagePayment d s r G now rnd))"
proof (cases "fst (processMessagePayment d s r G now rnd)")
  case (Inl e)
  then have "snd (processMessagePayment d s r G now rnd) = d"
    by (auto simp: processMessagePayment_def atomically_def split: option.splits if_splits sum.splits)
  then show ?thesis using i by (simp add: keepsGaps_refl)
next
  case (Inr u)
  then obtain sa ra va t where
    f: "find (\<lambda>a. acc_userId a = Some s \<and> accountType a = USER_WALLET) (accounts d) = Some sa"
       "find (\<lambda>a. acc_userId a = Some r \<and> accountType a = USER_WALLET) (accounts d) = Some ra"
       "find (\<lambda>a. accountType a = REVENUE) (accounts d) = Some va"
    and d': "snd (processMessagePayment d s r G now rnd) =
               transferBalances sa ra va G (transferEntries t sa ra va G (insertTransaction t d))"
    by (auto simp: processMessagePayment_def atomically_def createTransaction_def
        split: option.splits if_splits)
  have k: "acc_id sa < Suc (nextId d)" "acc_id ra < Suc (nextId d)" "acc_id va < Suc (nextId d)"
    using f found_issued [OF i] by (auto simp: less_Suc_eq)
  show ?thesis
    unfolding d'
    using k by (intro keepsGaps_transfer keepsGaps_insertTransaction keepsGaps_refl i) simp_all
qed

lemma keepsGaps_processMessageCharge:
  assumes i: "issued d"
  shows "keepsGaps d (snd (processMessageCharge d s r m))"
proof (cases "fst (processMessageCharge d s r m)")
  case (Inl e)
  then have "snd (processMessageCharge d s r m) = d"
    by (auto simp: processMessageCharge_def atomically_def split: option.splits if_splits sum.splits)
  then show ?thesis using i by (simp add: keepsGaps_refl)
next
  case (Inr u)
  then obtain sa ra t where
    f: "find (\<lambda>a. acc_userId a = Some s) (accounts d) = Some sa"
       "find (\<lambda>a. acc_userId a = Some r) (accounts d) = Some ra"
    and d': "snd (processMessageCharge d s r m) =
       increment (acc_id ra) MESSAGE_CHARGE
        (decrement (acc_id sa) MESSAGE_CHARGE
          (createEntry \<lparr>transactionId = tx_id t, accountId = acc_id ra,
                        amount = MESSAGE_CHARGE, direction = CREDIT\<rparr>
            (createEntry \<lparr>transactionId = tx_id t, accountId = acc_id sa,
                          amount = MESSAGE_CHARGE, direction = DEBIT\<rparr> (insertTransaction t d))))"
    by (auto simp: processMessageCharge_def atomically_def createTransaction_def
        split: option.splits if_splits)
  have p: "snd (processMessageCharge d s r m) =
       post \<lparr>transactionId = tx_id t, accountId = acc_id ra,
             amount = MESSAGE_CHARGE, direction = CREDIT\<rparr>
        (post \<lparr>transactionId = tx_id t, accountId = acc_id sa,
               amount = MESSAGE_CHARGE, direction = DEBIT\<rparr> (insertTransaction t d))"
    unfolding d'
    by (simp add: post_def increment_def decrement_def createEntry_def bump_def)
  have k: "acc_id sa < Suc (nextId d)" "acc_id ra < Suc (nextId d)"
    using f found_issued [OF i] by (auto simp: less_Suc_eq)
  show ?thesis
    unfolding p
    using k by (intro keepsGaps_post keepsGaps_insertTransaction keepsGaps_refl i) simp_all
qed

lemma keepsGaps_processCallPayment:
  assumes i: "issued d"
  shows "keepsGaps d (snd (processCallPayment d s r G refundAmount callId now))"
proof -
  let ?p = "processCallPayment d s r G refundAmount callId now"
  consider
      (none) "find (\<lambda>a. acc_userId a = Some s \<and> accountType a = USER_WALLET) (accounts d) = None
        \<or> find (\<lambda>a. acc_userId a = Some r \<and> accountType a = USER_WALLET) (accounts d) = None
        \<or> find (\<lambda>a. accountType a = REVENUE) (accounts d) = None"
    | (some) sa ra va where
        "find (\<lambda>a. acc_userId a = Some s \<and> accountType a = USER_WALLET) (accounts d) = Some sa"
        "find (\<lambda>a. acc_userId a = Some r \<and> accountType a = USER_WALLET) (accounts d) = Some ra"
        "find (\<lambda>a. accountType a = REVENUE) (accounts d) = Some va"
    by fastforce
  then show ?thesis
  proof cases
    case none
    then have "snd ?p = d"
      by (auto simp: processCallPayment_def atomically_def split: option.splits)
    then show ?thesis using i by (simp add: keepsGaps_refl)
  next
    case some
    let ?t = "\<lparr>tx_id = nextId d, idempotencyKey = Some (''call_'' @ callId @ ''_'' @ now),
               tx_type = CALL_PAYMENT, tx_status = COMPLETED, referenceId = Some callId,
               tx_userId = Some s, tx_amount = G\<rparr>"
    let ?d2 = "transferBalances sa ra va G (transferEntries ?t sa ra va G (insertTransaction ?t d))"
    let ?rt = "\<lparr>tx_id = Suc (nextId d),
                idempotencyKey = Some (''call_'' @ callId @ ''_'' @ now @ ''_refund''),
                tx_type = REFUND, tx_status = COMPLETED, referenceId = Some callId,
                tx_userId = Some s, tx_amount = refundAmount\<rparr>"
    let ?e = "\<lparr>transactionId = Suc (nextId d), accountId = acc_id sa,
               amount = refundAmount, direction = CREDIT\<rparr>"
    have n2: "nextId ?d2 = Suc (nextId d)"
      by simp
    have shape: "snd ?p = d \<or> snd ?p = ?d2 \<or> snd ?p = post ?e (insertTransaction ?rt ?d2)"
      using some
      by (simp add: processCallPayment_def atomically_def createTransaction_def Let_def
          post_def)
    have k: "acc_id sa < Suc (nextId d)" "acc_id ra < Suc (nextId d)" "acc_id va < Suc (nextId d)"
      using some found_issued [OF i] by (auto simp: less_Suc_eq)
    have c2: "keepsGaps d ?d2"
      using k by (intro keepsGaps_transfer keepsGaps_insertTransaction keepsGaps_refl i) simp_all
    have c3: "keepsGaps d (post ?e (insertTransaction ?rt ?d2))"
      using k by (intro keepsGaps_post keepsGaps_insertTransaction c2) (simp add: n2)
    show ?thesis
      using shape keepsGaps_refl [OF i] c2 c3 by auto
  qed
qed

lemma keepsGaps_addMoneyToWallet:
  assumes c: "keepsGaps d0 d"
  shows "keepsGaps d0 (snd (addMoneyToWallet d u amt txId))"
proof (cases "find (\<lambda>a. acc_userId a = Some u \<and> accountType a = USER_WALLET) (accounts d)")
  case None
  let ?a = "\<lparr>acc_id = nextId d, acc_userId = Some u, accountType = USER_WALLET, balance = 0\<rparr>"
  have "snd (addMoneyToWallet d u amt txId) =
          post \<lparr>transactionId = txId, accountId = nextId d, amount = amt, direction = CREDIT\<rparr>
            (insertAccount ?a d)"
    using None
    by (simp add: addMoneyToWallet_def atomically_def createAccount_def Let_def post_def)
  then show ?thesis
    by (simp add: keepsGaps_post keepsGaps_insertAccount c)
next
  case (Some a)
  have "snd (addMoneyToWallet d u amt txId) =
          post \<lparr>transactionId = txId, accountId = acc_id a, amount = amt, direction = CREDIT\<rparr> d"
    using Some by (simp add: addMoneyToWallet_def atomically_def post_def)
  then show ?thesis
    using found_issued [OF keepsGaps_issued [OF c] Some] by (simp add: keepsGaps_post c)
qed

lemma keepsGaps_processPayment:
  assumes i: "issued d"
  shows "keepsGaps d (snd (processPayment cfg d u amt))"
proof -
  let ?t = "\<lparr>tx_id = nextId d, idempotencyKey = None, tx_type = TOP_UP, tx_status = COMPLETED,
             referenceId = None, tx_userId = Some u, tx_amount = amt\<rparr>"
  let ?r = "addMoneyToWallet (insertTransaction ?t d) u amt (nextId d)"
  have "snd (processPayment cfg d u amt) = d \<or> snd (processPayment cfg d u amt) = snd ?r"
    by (cases ?r) (auto simp: processPayment_def createTransaction_def split: sum.splits)
  moreover have "keepsGaps d (snd ?r)"
    by (intro keepsGaps_addMoneyToWallet keepsGaps_insertTransaction keepsGaps_refl i)
  ultimately show ?thesis
    using keepsGaps_refl [OF i] by auto
qed

lemma keepsGaps_deductMoneyFromWallet:
  assumes c: "keepsGaps d0 d"
  shows "keepsGaps d0 (snd (deductMoneyFromWallet d u amt txId))"
proof (cases "find (\<lambda>a. acc_userId a = Some u \<and> accountType a = USER_WALLET) (accounts d)")
  case None
  then show ?thesis
    using c by (simp add: deductMoneyFromWallet_def atomically_def)
next
  case (Some a)
  have "snd (deductMoneyFromWallet d u amt txId) =
          post \<lparr>transactionId = txId, accountId = acc_id a, amount = amt, direction = DEBIT\<rparr> d"
    using Some
    by (simp add: deductMoneyFromWallet_def atomically_def post_def decrement_increment)
  then show ?thesis
    using found_issued [OF keepsGaps_issued [OF c] Some] by (simp add: keepsGaps_post c)
qed

lemma keepsGaps_processWithdrawal:
  assumes i: "issued d"
  shows "keepsGaps d (snd (processWithdrawal cfg d u amt))"
proof -
  let ?t = "\<lparr>tx_id = nextId d, idempotencyKey = None, tx_type = WITHDRAWAL, tx_status = PENDING,
             referenceId = None, tx_userId = Some u, tx_amount = amt\<rparr>"
  let ?r = "deductMoneyFromWallet (insertTransaction ?t d) u amt (nextId d)"
  have "snd (processWithdrawal cfg d u amt) = d
      \<or> snd (processWithdrawal cfg d u amt) = snd ?r
      \<or> snd (processWithdrawal cfg d u amt) = updateStatus (nextId d) COMPLETED (snd ?r)"
    by (cases ?r) (auto simp: processWithdrawal_def createTransaction_def split: sum.splits)
  moreover have cr: "keepsGaps d (snd ?r)"
    by (intro keepsGaps_deductMoneyFromWallet keepsGaps_insertTransaction keepsGaps_refl i)
  moreover have "keepsGaps d (updateStatus (nextId d) COMPLETED (snd ?r))"
    by (rule keepsGaps_updateStatus [OF cr])
  ultimately show ?thesis
    using keepsGaps_refl [OF i] by auto
qed

lemma keepsGaps_perform:
  "issued d \<Longrightarrow> writesEntries x \<Longrightarrow> keepsGaps d (perform cfg d x)"
  by (cases x)
     (simp_all add: keepsGaps_processMessageCharge keepsGaps_processMessagePayment
        keepsGaps_processCallPayment keepsGaps_processPayment keepsGaps_processWithdrawal)

lemma keepsGaps_run:
  "issued d \<Longrightarrow> list_all writesEntries ops \<Longrightarrow> keepsGaps d (run cfg d ops)"
proof (induction ops arbitrary: d)
  case Nil
  then show ?case by (simp add: run_def keepsGaps_refl)
next
  case (Cons x xs)
  have s: "keepsGaps d (perform cfg d x)"
    using Cons.prems by (simp add: keepsGaps_perform)
  have "keepsGaps (perform cfg d x) (run cfg (perform cfg d x) xs)"
    using Cons.prems by (intro Cons.IH keepsGaps_issued [OF s]) simp
  then show ?case
    using keepsGaps_trans [OF s] by (simp add: run_def)
qed

lemma consistent_gaps: "consistent d = (issued d \<and> list_all (\<lambda>g. g = 0) (gaps d))"
  by (auto simp: consistent_def issued_def gaps_def gap_def list_all_iff)

lemma consistent_run:
  assumes "consistent d" and "list_all writesEntries ops"
  shows "consistent (run cfg d ops)"
proof -
  have "keepsGaps d (run cfg d ops)"
    using assms by (intro keepsGaps_run) (simp_all add: consistent_gaps)
  then show ?thesis
    using assms(1) by (auto simp: consistent_gaps keepsGaps_def list_all_iff)
qed

text \<open>
  Where the difference between balance and entries comes from: registration
  opens a USER wallet at 10000 and writes no entry.
\<close>

lemma register_gaps:
  assumes i: "issued d" and reg: "register d mail name rl = (Inr uid, d')"
  shows "gaps d' = gaps d @ [if rl = USER then 10000 else 0] \<and> entries d' = entries d"
proof -
  let ?u = "\<lparr>user_id = nextId d, email = mail, username = name, role = rl\<rparr>"
  let ?d1 = "insertUser ?u d"
  let ?b = "if rl = USER then 10000 else (0::int)"
  let ?a = "\<lparr>acc_id = nextId ?d1, acc_userId = Some (nextId d),
              accountType = (if rl = INFLUENCER then INFLUENCER_WALLET else USER_WALLET),
              balance = ?b\<rparr>"
  have d': "d' = insertAccount ?a ?d1"
    using reg by (auto simp: register_def atomically_def createAccount_def Let_def split: if_splits)
  have i1: "issued ?d1"
    using i by (auto simp: issued_def list_all_iff)
  have "gaps ?d1 = gaps d"
    by (rule gaps_same) simp_all
  then show ?thesis
    unfolding d' using gaps_insertAccount [OF i1, of "Some (nextId d)" _ ?b] by simp
qed

lemma no_entry_written:
  "\<not> writesEntries x \<Longrightarrow> entries (perform cfg d x) = entries d"
  by (cases x)
     (auto simp: holdFundsForCall_def settleCallCharges_def refundHeldFunds_def atomically_def
        createTransaction_def split: option.splits if_splits)

lemma dbZ1_eq:
  "dbZ1 = \<lparr>users = [\<lparr>user_id = 1, email = ''a@x'', username = ''alice'', role = USER\<rparr>,
                  \<lparr>user_id = 2, email = ''b@x'', username = ''bob'', role = USER\<rparr>],
          accounts = [\<lparr>acc_id = 0, acc_userId = None, accountType = REVENUE, balance = 0\<rparr>,
                      \<lparr>acc_id = 3, acc_userId = Some 1, accountType = USER_WALLET, balance = 10000\<rparr>,
                      \<lparr>acc_id = 4, acc_userId = Some 2, accountType = USER_WALLET, balance = 0\<rparr>],
          transactions = [\<lparr>tx_id = 5, idempotencyKey = None, tx_type = TOP_UP,
                           tx_status = COMPLETED, referenceId = None, tx_userId = Some 1,
                           tx_amount = 10000\<rparr>],
          entries = [\<lparr>transactionId = 5, accountId = 3, amount = 10000, direction = CREDIT\<rparr>],
          nextId = 6\<rparr>"
  by (simp add: dbZ1_def dbZ_def cfg0_def processPayment_def orDefault_def
      verifyPaymentWithGateway_def createTransaction_def addMoneyToWallet_def atomically_def
      insertTransaction_def createEntry_def increment_def bump_def)

text \<open>
  Counterexample to C2 as stated: in \<open>dbZ1\<close> every balance is the net of the
  account's entries; the hold of 700 succeeds, takes account 3 from 10000 to
  9300 and writes no entry, so the net of its entries stays 10000.
\<close>

theorem hold_breaks_consistency:
  "consistent dbZ1
   \<and> \<not> isl (fst (holdFundsForCall dbZ1 1 700 ''c1''))
   \<and> entries (snd (holdFundsForCall dbZ1 1 700 ''c1'')) = entries dbZ1
   \<and> balanceOf (snd (holdFundsForCall dbZ1 1 700 ''c1'')) 3 = Some 9300
   \<and> net (snd (holdFundsForCall dbZ1 1 700 ''c1'')) 3 = 10000
   \<and> \<not> consistent (snd (holdFundsForCall dbZ1 1 700 ''c1''))"
  by (simp add: dbZ1_eq holdFundsForCall_def atomically_def createTransaction_def
      consistent_def net_def accEntries_def sumDir_def balanceOf_def bump_def)

text \<open>
  C2 (amended). In a store whose account ids and entry account ids were issued
  by the store, the operations that write entries (message charge, message
  payment, call payment, top-up, withdrawal) write each entry together with the
  matching balance update: after any sequence of them, failed ones included,
  every account has the same difference between its balance and the sum of its
  CREDIT entries minus the sum of its DEBIT entries as before, and an account
  created on the way has difference 0. The difference itself need not be 0:
  registration opens a USER wallet at 10000 without an entry
  (\<open>register_gaps\<close>), and \<open>holdFundsForCall\<close>, \<open>settleCallCharges\<close> and
  \<open>refundHeldFunds\<close> change a balance and write no entry (\<open>no_entry_written\<close>).
\<close>

theorem entry_writers_keep_gaps:
  assumes "issued d" and "list_all writesEntries ops"
  shows "issued (run cfg d ops)
       \<and> length (accounts d) \<le> length (accounts (run cfg d ops))
       \<and> gaps (run cfg d ops) =
           gaps d @ replicate (length (accounts (run cfg d ops)) - length (accounts d)) 0"
  using keepsGaps_run [OF assms, of cfg] by (simp add: keepsGaps_def)

lemma run_reg_sample:
  "map balance (accounts (run cfgLow dbReg opsReg)) = [80, 4150, 100, 10720]
   \<and> length (entries (run cfgLow dbReg opsReg)) = 11"
  by (simp add: run_def opsReg_def dbReg_eq cfgLow_def cfg0_def orDefault_def
      processPayment_def verifyPaymentWithGateway_def addMoneyToWallet_def
      processMessagePayment_def processCallPayment_def processMessageCharge_def
      processWithdrawal_def deductMoneyFromWallet_def getBalance_def MESSAGE_CHARGE_def
      atomically_def createTransaction_def createAccount_def transferBalances_def
      transferEntries_def revenueAmount_def bump_def Let_def)

theorem entry_writers_keep_gaps_witness:
  "issued dbReg \<and> list_all writesEntries opsReg
   \<and> gaps dbReg = [0, 10000, 0]
   \<and> map balance (accounts (run cfgLow dbReg opsReg)) = [80, 4150, 100, 10720]
   \<and> gaps (run cfgLow dbReg opsReg) = [0, 10000, 0, 0]"
proof -
  have i: "issued dbReg"
    by (simp add: issued_def dbReg_eq)
  have w: "list_all writesEntries opsReg"
    by (simp add: opsReg_def)
  have g: "gaps dbReg = [0, 10000, 0]"
    by (simp add: gaps_def gap_def net_def accEntries_def sumDir_def dbReg_eq)
  have n: "length (accounts dbReg) = 3"
    by (simp add: dbReg_eq)
  have "length (map balance (accounts (run cfgLow dbReg opsReg)))
          = length [80, 4150, 100, 10720 :: int]"
    using run_reg_sample by (simp only:)
  then have m: "length (accounts (run cfgLow dbReg opsReg)) = 4"
    by simp
  show ?thesis
    using entry_writers_keep_gaps [OF i w, of cfgLow] i w g run_reg_sample
    by (simp add: n m numeral_eq_Suc)
qed

end
